theory Spec2Isabelle
  imports Complex_Main "HOL-Library.Log_Nat" "HOL-Library.AList" "HOL-Library.Sublist"
begin

section \<open>JSON values and the protocol data types (mcp/types.go)\<close>

text \<open>
  A JSON text that Go's scanner accepts, as the value it denotes. An object keeps its
  members in the order and with the duplicates of the text, because the decoder visits
  them one after the other. A number is the exact value of its literal. The same type
  gives the Go values an \<open>interface{}\<close> holds after decoding: there a number is a
  float64 and an object is a map, each key once.
\<close>

datatype json =
    JNull
  | JBool bool
  | JNumber rat
  | JString string
  | JArray "json list"
  | JObject "(string \<times> json) list"

text \<open>The errors of the library calls the code checks with \<open>err != nil\<close>.\<close>

datatype error =
    SyntaxError
  | UnmarshalTypeError
  | EscapeError
  | NumError
  | ParseError
  | Errorf string

record JSONRPCRequest =
  JSONRPC :: string
  Method :: string
  Params :: "json option"
  ID :: "json option"

record JSONRPCError =
  Code :: int
  Message :: string
  Data :: "json option"

record Tool =
  Name :: string
  Description :: string
  InputSchema :: json

record CallToolRequest =
  Name_call :: string
  Arguments :: "(string \<times> json) list"

record Content =
  Type :: string
  Text :: string

record CallToolResult =
  Content :: "Content list"
  IsError :: bool

text \<open>
  What \<open>response.Result\<close> (an \<open>interface{}\<close>) holds in \<open>processRequest\<close>: the map with
  the tools, a \<open>CallToolResult\<close> by value, the handler's \<open>*CallToolResult\<close> (which may be
  a nil pointer inside a non-nil interface), or the literal map of \<open>initialize\<close>.
\<close>

datatype result =
    ToolsMap "Tool list"
  | ResultValue CallToolResult
  | ResultPtr "CallToolResult option"
  | LiteralMap json

record JSONRPCResponse =
  JSONRPC_resp :: string
  Result :: "result option"
  Error :: "JSONRPCError option"
  ID_resp :: "json option"

text \<open>
  A handler returns \<open>(*CallToolResult, error)\<close>: the pointer (None for nil) and the
  error, given by its \<open>Error()\<close> text (None for nil).
\<close>

type_synonym ToolHandler = "(string \<times> json) list \<Rightarrow> CallToolResult option \<times> string option"

record Server =
  Tools :: "(string \<times> Tool) list"
  Handlers :: "(string \<times> ToolHandler) list"

definition NewServer :: Server where
  "NewServer = \<lparr>Tools = [], Handlers = []\<rparr>"

definition RegisterTool :: "Server \<Rightarrow> Tool \<Rightarrow> ToolHandler \<Rightarrow> Server" where
  "RegisterTool s tool handler =
     s\<lparr>Tools := AList.update (Name tool) tool (Tools s),
       Handlers := AList.update (Name tool) handler (Handlers s)\<rparr>"

section \<open>Decoding with encoding/json\<close>

subsection \<open>Numbers\<close>

text \<open>
  A number decoded into an \<open>interface{}\<close> goes through \<open>strconv.ParseFloat\<close>: it becomes
  the float64 nearest to the literal's value, ties to the even mantissa, with 53 bits of
  mantissa and exponents down to the subnormal \<open>2^-1074\<close>; a value that rounds to
  \<open>2^1024\<close> or more is out of range, which the decoder reports as an
  UnmarshalTypeError. \<open>floor_log2 a\<close> is the \<open>k\<close> with \<open>2^k \<le> a < 2^(k+1)\<close> for a
  positive \<open>a\<close>.
\<close>

definition floor_log2 :: "rat \<Rightarrow> int" where
  "floor_log2 a =
     (let k = bitlen (fst (quotient_of a)) - bitlen (snd (quotient_of a))
      in if power_int 2 k \<le> a then k else k - 1)"

definition round_half_even :: "rat \<Rightarrow> int" where
  "round_half_even y =
     (let f = \<lfloor>y\<rfloor>; d = y - of_int f
      in if d < 1 / 2 then f else if 1 / 2 < d then f + 1 else if even f then f else f + 1)"

definition float64 :: "rat \<Rightarrow> rat option" where
  "float64 x =
     (if x = 0 then Some 0
      else let a = \<bar>x\<bar>;
               e = max (floor_log2 a - 52) (- 1074);
               r = of_int (round_half_even (a / power_int 2 e)) * power_int 2 e
           in if 2 ^ 1024 \<le> r then None else Some (sgn x * r))"

subsection \<open>Values of type interface{}\<close>

text \<open>The first error of a list of results, or all the values.\<close>

fun sequence :: "(error + 'a) list \<Rightarrow> error + 'a list" where
  "sequence [] = Inr []"
| "sequence (Inl e # rs) = Inl e"
| "sequence (Inr x # rs) = (case sequence rs of Inl e \<Rightarrow> Inl e | Inr xs \<Rightarrow> Inr (x # xs))"

text \<open>
  A JSON value decoded into an \<open>interface{}\<close>: a number becomes a float64, an array a
  slice of decoded elements, an object a map in which a later member replaces an earlier
  one of the same key. A number out of range anywhere inside is an error of the whole.
\<close>

fun interface_of :: "json \<Rightarrow> error + json" where
  "interface_of (JNumber x) =
     (case float64 x of None \<Rightarrow> Inl UnmarshalTypeError | Some y \<Rightarrow> Inr (JNumber y))"
| "interface_of (JArray xs) =
     (case sequence (map interface_of xs) of Inl e \<Rightarrow> Inl e | Inr ys \<Rightarrow> Inr (JArray ys))"
| "interface_of (JObject kvs) =
     (case sequence (map (\<lambda>kv. interface_of (snd kv)) kvs) of
        Inl e \<Rightarrow> Inl e
      | Inr vs \<Rightarrow> Inr (JObject (fold (\<lambda>m. AList.update (fst m) (snd m)) (zip (map fst kvs) vs) [])))"
| "interface_of v = Inr v"

subsection \<open>Struct fields\<close>

text \<open>
  The decoder matches an object key to a struct field by the exact name first, then by
  the folded name: ASCII letters in upper case, and the two non-ASCII runes that fold to
  an ASCII letter, U+017F (bytes C5 BF) to S and U+212A (bytes E2 84 AA) to K.
\<close>

definition toUpper :: "char \<Rightarrow> char" where
  "toUpper c = (let n = (of_char c :: nat) in if 97 \<le> n \<and> n \<le> 122 then char_of (n - 32) else c)"

fun foldName :: "string \<Rightarrow> string" where
  "foldName [] = []"
| "foldName (c # cs) =
     (if c = CHR 0xC5 \<and> take 1 cs = [CHR 0xBF] then CHR ''S'' # foldName (drop 1 cs)
      else if c = CHR 0xE2 \<and> take 2 cs = [CHR 0x84, CHR 0xAA] then CHR ''K'' # foldName (drop 2 cs)
      else toUpper c # foldName cs)"

definition field_of :: "string list \<Rightarrow> string \<Rightarrow> string option" where
  "field_of names key =
     (if key \<in> set names then Some key
      else find (\<lambda>f. foldName f = foldName key) names)"

text \<open>
  One member of an object decoded into a \<open>CallToolRequest\<close>. A string goes into Name, an
  object is merged into the Arguments map with its values decoded as \<open>interface{}\<close>, null
  leaves Name alone and sets the map to nil, a key that matches no field is skipped, and
  any other value, or a number out of range inside the arguments, is an
  UnmarshalTypeError. Go decodes the remaining members after a type error and returns the
  error at the end; the caller reads the struct only when there is no error, so the model
  stops there.
\<close>

definition decode_CallToolRequest_member ::
  "string \<times> json \<Rightarrow> CallToolRequest \<Rightarrow> error + CallToolRequest" where
  "decode_CallToolRequest_member kv c =
     (case field_of [''name'', ''arguments''] (fst kv) of
        None \<Rightarrow> Inr c
      | Some f \<Rightarrow>
          if f = ''name'' then
            (case snd kv of
               JString s \<Rightarrow> Inr (c\<lparr>Name_call := s\<rparr>)
             | JNull \<Rightarrow> Inr c
             | _ \<Rightarrow> Inl UnmarshalTypeError)
          else
            (case snd kv of
               JObject ms \<Rightarrow>
                 (case sequence (map (\<lambda>m. interface_of (snd m)) ms) of
                    Inl e \<Rightarrow> Inl e
                  | Inr vs \<Rightarrow>
                      Inr (c\<lparr>Arguments :=
                        fold (\<lambda>m. AList.update (fst m) (snd m)) (zip (map fst ms) vs) (Arguments c)\<rparr>))
             | JNull \<Rightarrow> Inr (c\<lparr>Arguments := []\<rparr>)
             | _ \<Rightarrow> Inl UnmarshalTypeError))"

fun decode_CallToolRequest_members ::
  "(string \<times> json) list \<Rightarrow> CallToolRequest \<Rightarrow> error + CallToolRequest" where
  "decode_CallToolRequest_members [] c = Inr c"
| "decode_CallToolRequest_members (kv # kvs) c =
     (case decode_CallToolRequest_member kv c of
        Inl e \<Rightarrow> Inl e
      | Inr c' \<Rightarrow> decode_CallToolRequest_members kvs c')"

text \<open>
  \<open>json.Unmarshal(req.Params, &callReq)\<close> on a zero \<open>callReq\<close>. An absent \<open>params\<close> is an
  empty RawMessage, which is not a JSON text; null decodes into a struct with no effect
  and no error; an object is decoded member by member; any other value cannot be
  decoded into a struct.
\<close>

definition Unmarshal_CallToolRequest :: "json option \<Rightarrow> error + CallToolRequest" where
  "Unmarshal_CallToolRequest raw =
     (case raw of
        None \<Rightarrow> Inl SyntaxError
      | Some JNull \<Rightarrow> Inr \<lparr>Name_call = [], Arguments = []\<rparr>
      | Some (JObject kvs) \<Rightarrow> decode_CallToolRequest_members kvs \<lparr>Name_call = [], Arguments = []\<rparr>
      | Some _ \<Rightarrow> Inl UnmarshalTypeError)"

section \<open>The dispatcher (processRequest in mcp/server.go)\<close>

text \<open>
  What one run of \<open>processRequest\<close> does before it sends: the handler calls it made (tool
  name and arguments, in order), and the response it goes on to marshal and send on the
  session's channel, None when it returns without sending. A handler is a function that
  returns; the tools of \<open>tools/list\<close> come in the order of the registry, where Go's map
  iteration leaves the order open.
\<close>

record outcome =
  invoked :: "(string \<times> (string \<times> json) list) list"
  response :: "JSONRPCResponse option"

definition initialize_result :: json where
  "initialize_result =
     JObject [(''protocolVersion'', JString ''2024-11-05''),
              (''capabilities'', JObject [(''tools'', JObject [])]),
              (''serverInfo'', JObject [(''name'', JString ''adomcp''), (''version'', JString ''1.0.0'')])]"

definition processRequest :: "Server \<Rightarrow> JSONRPCRequest \<Rightarrow> outcome" where
  "processRequest s req =
     (let response = \<lparr>JSONRPC_resp = ''2.0'', Result = None, Error = None, ID_resp = ID req\<rparr> in
      if Method req = ''tools/list'' then
        \<lparr>invoked = [], response = Some (response\<lparr>Result := Some (ToolsMap (map snd (Tools s)))\<rparr>)\<rparr>
      else if Method req = ''tools/call'' then
        (case Unmarshal_CallToolRequest (Params req) of
           Inl err \<Rightarrow>
             \<lparr>invoked = [],
              response = Some (response\<lparr>Error := Some \<lparr>Code = - 32602, Message = ''Invalid params'', Data = None\<rparr>\<rparr>)\<rparr>
         | Inr callReq \<Rightarrow>
             (case map_of (Handlers s) (Name_call callReq) of
                None \<Rightarrow>
                  \<lparr>invoked = [],
                   response = Some (response\<lparr>Error := Some \<lparr>Code = - 32601, Message = ''Method not found'', Data = None\<rparr>\<rparr>)\<rparr>
              | Some handler \<Rightarrow>
                  (case handler (Arguments callReq) of
                     (res, Some err) \<Rightarrow>
                       \<lparr>invoked = [(Name_call callReq, Arguments callReq)],
                        response = Some (response\<lparr>Result := Some (ResultValue
                          \<lparr>Content = [\<lparr>Type = ''text'', Text = err\<rparr>], IsError = True\<rparr>)\<rparr>)\<rparr>
                   | (res, None) \<Rightarrow>
                       \<lparr>invoked = [(Name_call callReq, Arguments callReq)],
                        response = Some (response\<lparr>Result := Some (ResultPtr res)\<rparr>)\<rparr>)))
      else if Method req = ''initialize'' then
        \<lparr>invoked = [], response = Some (response\<lparr>Result := Some (LiteralMap initialize_result)\<rparr>)\<rparr>
      else if Method req = ''notifications/initialized'' then
        \<lparr>invoked = [], response = None\<rparr>
      else
        \<lparr>invoked = [],
         response = Some (response\<lparr>Error := Some \<lparr>Code = - 32601,
           Message = ''Method not found: '' @ Method req, Data = None\<rparr>\<rparr>)\<rparr>)"

section \<open>The library calls of azuredevops/parser.go\<close>

subsection \<open>strings\<close>

text \<open>\<open>strings.Index\<close>: the first position where the substring starts, None for -1.\<close>

fun Index :: "string \<Rightarrow> string \<Rightarrow> nat option" where
  "Index [] substr = (if substr = [] then Some 0 else None)"
| "Index (c # cs) substr =
     (if prefix substr (c # cs) then Some 0 else map_option Suc (Index cs substr))"

definition Contains :: "string \<Rightarrow> string \<Rightarrow> bool" where
  "Contains s substr = (Index s substr \<noteq> None)"

text \<open>
  \<open>strings.Split\<close> for a separator that is not empty, the only use the code makes of it:
  the pieces between the occurrences of the separator found from the left. (With an empty
  separator Go splits after every UTF-8 sequence; the model returns the bytes.)
\<close>

function Split :: "string \<Rightarrow> string \<Rightarrow> string list" where
  "Split s sep =
     (if sep = [] then map (\<lambda>c. [c]) s
      else case Index s sep of
             None \<Rightarrow> [s]
           | Some m \<Rightarrow> take m s # Split (drop (m + length sep) s) sep)"
  by pat_completeness auto
termination
proof (relation "measure (\<lambda>(s, sep). length s)")
  show "wf (measure (\<lambda>(s, sep). length s))" by simp
next
  fix s sep :: string and m :: nat
  assume sep: "sep \<noteq> []" and idx: "Index s sep = Some m"
  from sep idx have "s \<noteq> []" by (cases s) auto
  with sep show "((drop (m + length sep) s, sep), (s, sep)) \<in> measure (\<lambda>(s, sep). length s)"
    by (cases s; cases sep) auto
qed

declare Split.simps [simp del]

text \<open>\<open>strings.TrimRight\<close>: drops the trailing bytes that are in the cutset (ASCII cutsets).\<close>

definition TrimRight :: "string \<Rightarrow> string \<Rightarrow> string" where
  "TrimRight s cutset = rev (dropWhile (\<lambda>c. c \<in> set cutset) (rev s))"

text \<open>\<open>strings.Cut\<close> at a one-byte separator: before, after, found.\<close>

definition Cut :: "string \<Rightarrow> char \<Rightarrow> string \<times> string \<times> bool" where
  "Cut s sep = (takeWhile (\<lambda>c. c \<noteq> sep) s, drop 1 (dropWhile (\<lambda>c. c \<noteq> sep) s), sep \<in> set s)"

subsection \<open>strconv.Atoi\<close>

text \<open>
  An optional sign and one or more decimal digits, whose value fits an \<open>int\<close>; \<open>int\<close> has
  64 bits on the platforms the server is built for.
\<close>

definition intSize :: nat where
  "intSize = 64"

definition isDigit :: "char \<Rightarrow> bool" where
  "isDigit c = (48 \<le> (of_char c :: nat) \<and> (of_char c :: nat) \<le> 57)"

definition digits_value :: "string \<Rightarrow> int" where
  "digits_value ds = fold (\<lambda>c n. n * 10 + (int (of_char c) - 48)) ds 0"

definition Atoi :: "string \<Rightarrow> error + int" where
  "Atoi s =
     (let neg = (take 1 s = ''-'');
          ds = (if take 1 s = ''-'' \<or> take 1 s = ''+'' then drop 1 s else s)
      in if ds = [] \<or> \<not> list_all isDigit ds then Inl NumError
         else let n = (if neg then - digits_value ds else digits_value ds)
              in if n < - (2 ^ (intSize - 1)) \<or> 2 ^ (intSize - 1) - 1 < n then Inl NumError
                 else Inr n)"

subsection \<open>net/url\<close>

definition ishex :: "char \<Rightarrow> bool" where
  "ishex c = (let n = (of_char c :: nat) in
     (48 \<le> n \<and> n \<le> 57) \<or> (97 \<le> n \<and> n \<le> 102) \<or> (65 \<le> n \<and> n \<le> 70))"

definition unhex :: "char \<Rightarrow> nat" where
  "unhex c = (let n = (of_char c :: nat) in
     if 48 \<le> n \<and> n \<le> 57 then n - 48
     else if 97 \<le> n \<and> n \<le> 102 then n - 97 + 10
     else if 65 \<le> n \<and> n \<le> 70 then n - 65 + 10
     else 0)"

text \<open>
  \<open>url.QueryUnescape\<close>: \<open>%XY\<close> becomes the byte with hexadecimal digits X and Y, \<open>+\<close>
  becomes a space; a \<open>%\<close> that two hexadecimal digits do not follow is an EscapeError.
\<close>

fun QueryUnescape :: "string \<Rightarrow> error + string" where
  "QueryUnescape [] = Inr []"
| "QueryUnescape (c # cs) =
     (if c = CHR ''%'' then
        (case cs of
           x # y # rest \<Rightarrow>
             if ishex x \<and> ishex y then
               (case QueryUnescape rest of
                  Inl e \<Rightarrow> Inl e
                | Inr t \<Rightarrow> Inr (char_of (unhex x * 16 + unhex y) # t))
             else Inl EscapeError
         | _ \<Rightarrow> Inl EscapeError)
      else
        (case QueryUnescape cs of
           Inl e \<Rightarrow> Inl e
         | Inr t \<Rightarrow> Inr ((if c = CHR ''+'' then CHR '' '' else c) # t)))"

text \<open>The fields of \<open>url.URL\<close> the code reads: the decoded path and the raw query.\<close>

record URL =
  Path :: string
  RawQuery :: string

text \<open>
  \<open>url.ParseQuery\<close>, as \<open>URL.Query\<close> uses it (its error dropped): the pairs in the order of
  the query. A piece with a semicolon, an empty piece and a piece whose key or value does
  not unescape are skipped. \<open>Values\<close> is the list of the pairs; \<open>Get\<close> is the first value
  of the key, or the empty string.
\<close>

definition query_pair :: "string \<Rightarrow> (string \<times> string) list" where
  "query_pair key =
     (if CHR '';'' \<in> set key then []
      else if key = [] then []
      else case Cut key CHR ''='' of
             (k, v, found) \<Rightarrow>
               (case QueryUnescape k of
                  Inl e \<Rightarrow> []
                | Inr k' \<Rightarrow>
                    (case QueryUnescape v of
                       Inl e \<Rightarrow> []
                     | Inr v' \<Rightarrow> [(k', v')])))"

function ParseQuery :: "string \<Rightarrow> (string \<times> string) list" where
  "ParseQuery query =
     (if query = [] then []
      else case Cut query CHR ''&'' of
             (key, rest, found) \<Rightarrow> query_pair key @ ParseQuery rest)"
  by pat_completeness auto
termination
proof (relation "measure length")
  show "wf (measure length)" by simp
next
  fix query key :: string and x :: "string \<times> bool" and rest :: string and found :: bool
  assume ne: "query \<noteq> []" and cut: "(key, x) = Cut query CHR ''&''" and x: "(rest, found) = x"
  from cut x have "rest = drop 1 (dropWhile (\<lambda>c. c \<noteq> CHR ''&'') query)"
    by (simp add: Cut_def)
  moreover have "length (dropWhile (\<lambda>c. c \<noteq> CHR ''&'') query) \<le> length query"
    by (rule length_dropWhile_le)
  ultimately show "(rest, query) \<in> measure length"
    using ne by (cases query) auto
qed

declare ParseQuery.simps [simp del]

definition Query :: "URL \<Rightarrow> (string \<times> string) list" where
  "Query u = ParseQuery (RawQuery u)"

definition Get :: "(string \<times> string) list \<Rightarrow> string \<Rightarrow> string" where
  "Get v key = (case map_of v key of None \<Rightarrow> [] | Some x \<Rightarrow> x)"

section \<open>ParseURL (azuredevops/parser.go)\<close>

datatype ResourceType = ResourceUnknown | ResourceBuild | ResourceRelease

record ParsedResource =
  Type_res :: ResourceType
  Project :: string
  ID_res :: int

text \<open>
  One of the two blocks of \<open>ParseURL\<close>, which differ in the marker, the name of the query
  parameter and the resource type only. None when the block falls through.
\<close>

definition parse_block :: "URL \<Rightarrow> string \<Rightarrow> string \<Rightarrow> ResourceType \<Rightarrow> ParsedResource option" where
  "parse_block u marker param ty =
     (if Contains (Path u) marker then
        (let idStr = Get (Query u) param in
         if idStr \<noteq> [] then
           (case Atoi idStr of
              Inl err \<Rightarrow> None
            | Inr n \<Rightarrow>
                (let parts = Split (Path u) marker in
                 if length parts > 0 then
                   (let prefix = TrimRight (hd parts) ''/'';
                        pathParts = Split prefix ''/''
                    in if length pathParts > 0 then
                         (let project = last pathParts;
                              project = (case QueryUnescape project of Inl err \<Rightarrow> [] | Inr p \<Rightarrow> p)
                          in Some \<lparr>Type_res = ty, Project = project, ID_res = n\<rparr>)
                       else None)
                 else None))
         else None)
      else None)"

text \<open>\<open>url.Parse\<close> is the parameter \<open>parse\<close>.\<close>

definition ParseURL :: "(string \<Rightarrow> error + URL) \<Rightarrow> string \<Rightarrow> error + ParsedResource" where
  "ParseURL parse rawURL =
     (case parse rawURL of
        Inl err \<Rightarrow> Inl err
      | Inr u \<Rightarrow>
          (case parse_block u ''/_build'' ''buildId'' ResourceBuild of
             Some r \<Rightarrow> Inr r
           | None \<Rightarrow>
               (case parse_block u ''/_release'' ''releaseId'' ResourceRelease of
                  Some r \<Rightarrow> Inr r
                | None \<Rightarrow> Inl (Errorf ''could not parse build or release info from URL''))))"

section \<open>The request receiver (handleMessage in mcp/server.go)\<close>

text \<open>
  The parts of an \<open>http.Request\<close> the handlers read. The body is given by what the JSON
  decoder's scanner makes of it: the first JSON value of the body, None when the body does
  not start with a JSON text (a syntax error, or no data at all).
\<close>

record Request =
  Method_http :: string
  URL :: URL
  Body :: "json option"

record ResponseWriter =
  Status :: nat
  Written :: string

definition http_Error :: "string \<Rightarrow> nat \<Rightarrow> ResponseWriter" where
  "http_Error msg code = \<lparr>Status = code, Written = msg @ [CHR 0x0A]\<rparr>"

text \<open>
  One member of an object decoded into a \<open>JSONRPCRequest\<close>: \<open>jsonrpc\<close> and \<open>method\<close> take a
  string (null is ignored), \<open>params\<close> is a RawMessage and takes the text of any value, null
  too, and \<open>id\<close> is an \<open>interface{}\<close>: nil for null, the decoded value otherwise, and an
  UnmarshalTypeError when a number inside it is out of range.
\<close>

definition decode_JSONRPCRequest_member ::
  "string \<times> json \<Rightarrow> JSONRPCRequest \<Rightarrow> error + JSONRPCRequest" where
  "decode_JSONRPCRequest_member kv r =
     (case field_of [''jsonrpc'', ''method'', ''params'', ''id''] (fst kv) of
        None \<Rightarrow> Inr r
      | Some f \<Rightarrow>
          if f = ''jsonrpc'' then
            (case snd kv of
               JString s \<Rightarrow> Inr (r\<lparr>JSONRPC := s\<rparr>)
             | JNull \<Rightarrow> Inr r
             | _ \<Rightarrow> Inl UnmarshalTypeError)
          else if f = ''method'' then
            (case snd kv of
               JString s \<Rightarrow> Inr (r\<lparr>Method := s\<rparr>)
             | JNull \<Rightarrow> Inr r
             | _ \<Rightarrow> Inl UnmarshalTypeError)
          else if f = ''params'' then Inr (r\<lparr>Params := Some (snd kv)\<rparr>)
          else
            (case interface_of (snd kv) of
               Inl e \<Rightarrow> Inl e
             | Inr JNull \<Rightarrow> Inr (r\<lparr>ID := None\<rparr>)
             | Inr v \<Rightarrow> Inr (r\<lparr>ID := Some v\<rparr>)))"

fun decode_JSONRPCRequest_members ::
  "(string \<times> json) list \<Rightarrow> JSONRPCRequest \<Rightarrow> error + JSONRPCRequest" where
  "decode_JSONRPCRequest_members [] r = Inr r"
| "decode_JSONRPCRequest_members (kv # kvs) r =
     (case decode_JSONRPCRequest_member kv r of
        Inl e \<Rightarrow> Inl e
      | Inr r' \<Rightarrow> decode_JSONRPCRequest_members kvs r')"

text \<open>\<open>json.NewDecoder(r.Body).Decode(&req)\<close> on a zero \<open>req\<close>.\<close>

definition Decode_JSONRPCRequest :: "json option \<Rightarrow> error + JSONRPCRequest" where
  "Decode_JSONRPCRequest body =
     (case body of
        None \<Rightarrow> Inl SyntaxError
      | Some JNull \<Rightarrow> Inr \<lparr>JSONRPC = [], Method = [], Params = None, ID = None\<rparr>
      | Some (JObject kvs) \<Rightarrow>
          decode_JSONRPCRequest_members kvs \<lparr>JSONRPC = [], Method = [], Params = None, ID = None\<rparr>
      | Some _ \<Rightarrow> Inl UnmarshalTypeError)"

text \<open>
  \<open>handleMessage\<close> over the session directory (session identifier to channel): what it
  writes to the response, and the goroutine it starts, \<open>go s.processRequest(req, msgChan)\<close>,
  None when it starts none.
\<close>

definition handleMessage ::
  "(string \<times> nat) list \<Rightarrow> Request \<Rightarrow> ResponseWriter \<times> (JSONRPCRequest \<times> nat) option" where
  "handleMessage sessions r =
     (if Method_http r \<noteq> ''POST'' then (http_Error ''Method not allowed'' 405, None)
      else let sessionID = Get (Query (URL r)) ''sessionId'' in
        if sessionID = [] then (http_Error ''Missing sessionId'' 400, None)
        else case map_of sessions sessionID of
               None \<Rightarrow> (http_Error ''Session not found'' 404, None)
             | Some msgChan \<Rightarrow>
                 (case Decode_JSONRPCRequest (Body r) of
                    Inl err \<Rightarrow> (http_Error ''Invalid JSON'' 400, None)
                  | Inr req \<Rightarrow> (\<lparr>Status = 202, Written = []\<rparr>, Some (req, msgChan))))"

section \<open>Sessions, streams and dispatch goroutines (handleSSE, handleMessage, processRequest)\<close>

text \<open>
  \<open>uuid.New().String()\<close>: 36 characters, lower-case hexadecimal digits in the groups
  8-4-4-4-12, version 4, variant 10.
\<close>

definition is_uuid :: "string \<Rightarrow> bool" where
  "is_uuid sid =
     (length sid = 36 \<and>
      list_all (\<lambda>(i, c). if i \<in> {8, 13, 18, 23} then c = CHR ''-''
                          else if i = 14 then c = CHR ''4''
                          else if i = 19 then c \<in> set ''89ab''
                          else c \<in> set ''0123456789abcdef'')
        (enumerate 0 sid))"

text \<open>What \<open>handleSSE\<close> writes with one \<open>Fprintf\<close>.\<close>

definition endpoint_event :: "string \<Rightarrow> string" where
  "endpoint_event sessionID =
     ''event: endpoint'' @ [CHR 0x0A] @ ''data: '' @ (''/message?sessionId='' @ sessionID) @ [CHR 0x0A, CHR 0x0A]"

definition message_event :: "string \<Rightarrow> string" where
  "message_event msg = ''event: message'' @ [CHR 0x0A] @ ''data: '' @ msg @ [CHR 0x0A, CHR 0x0A]"

text \<open>
  A run of \<open>handleSSE\<close> whose writer can flush, from the point where it has stored its
  channel in the directory: about to write the endpoint event, in the loop, or returned
  (the deferred Delete done). \<open>written\<close> holds what it wrote, one entry for each Fprintf.
\<close>

datatype pc = Announce | Loop | Returned

record stream =
  sessionID :: string
  msgChan :: nat
  stage :: pc
  written :: "string list"

text \<open>
  A goroutine \<open>go s.processRequest(req, msgChan)\<close>: before the switch, at the send
  \<open>msgChan <- string(respBytes)\<close>, or finished.
\<close>

datatype task = Started JSONRPCRequest nat | Sending string nat | Finished

text \<open>
  The shared state: the directory \<open>s.sessions\<close>, the channels made so far (a channel is
  its position in the list, the entry is its buffer, oldest message first), the streams
  and the dispatch goroutines.
\<close>

record state =
  sessions :: "(string \<times> nat) list"
  chans :: "string list list"
  streams :: "stream list"
  tasks :: "task list"

definition init :: state where
  "init = \<lparr>sessions = [], chans = [], streams = [], tasks = []\<rparr>"

definition capacity :: nat where
  "capacity = 10"

text \<open>
  One step of one goroutine. \<open>marshal\<close> is \<open>json.Marshal\<close> followed by the conversion to
  a string; \<open>srv\<close> holds the registry. A send is a step only while the buffer has room
  and a receive only while it has a message: a goroutine with no step is blocked. The
  context of a stream can be cancelled at any time; the loop's select sees it in the
  \<open>cancel\<close> step. A POST that \<open>handleMessage\<close> rejects changes nothing and is no step.
\<close>

inductive step :: "(JSONRPCResponse \<Rightarrow> string) \<Rightarrow> Server \<Rightarrow> state \<Rightarrow> state \<Rightarrow> bool"
  for marshal :: "JSONRPCResponse \<Rightarrow> string" and srv :: Server where
  open_stream:
    "is_uuid sid \<Longrightarrow>
     step marshal srv s
       (s\<lparr>sessions := AList.update sid (length (chans s)) (sessions s),
          chans := chans s @ [[]],
          streams := streams s @ [\<lparr>sessionID = sid, msgChan = length (chans s), stage = Announce, written = []\<rparr>]\<rparr>)"
| announce:
    "i < length (streams s) \<Longrightarrow> streams s ! i = st \<Longrightarrow> stage st = Announce \<Longrightarrow>
     step marshal srv s
       (s\<lparr>streams := (streams s)[i := st\<lparr>stage := Loop, written := written st @ [endpoint_event (sessionID st)]\<rparr>]\<rparr>)"
| receive:
    "i < length (streams s) \<Longrightarrow> streams s ! i = st \<Longrightarrow> stage st = Loop \<Longrightarrow>
     msgChan st < length (chans s) \<Longrightarrow> chans s ! msgChan st = msg # rest \<Longrightarrow>
     step marshal srv s
       (s\<lparr>chans := (chans s)[msgChan st := rest],
          streams := (streams s)[i := st\<lparr>written := written st @ [message_event msg]\<rparr>]\<rparr>)"
| cancel:
    "i < length (streams s) \<Longrightarrow> streams s ! i = st \<Longrightarrow> stage st = Loop \<Longrightarrow>
     step marshal srv s
       (s\<lparr>sessions := AList.delete (sessionID st) (sessions s),
          streams := (streams s)[i := st\<lparr>stage := Returned\<rparr>]\<rparr>)"
| post:
    "handleMessage (sessions s) r = (w, Some (req, c)) \<Longrightarrow>
     step marshal srv s (s\<lparr>tasks := tasks s @ [Started req c]\<rparr>)"
| run:
    "j < length (tasks s) \<Longrightarrow> tasks s ! j = Started req c \<Longrightarrow>
     step marshal srv s
       (s\<lparr>tasks := (tasks s)[j := (case response (processRequest srv req) of
                                     None \<Rightarrow> Finished
                                   | Some resp \<Rightarrow> Sending (marshal resp) c)]\<rparr>)"
| send:
    "j < length (tasks s) \<Longrightarrow> tasks s ! j = Sending msg c \<Longrightarrow>
     c < length (chans s) \<Longrightarrow> length (chans s ! c) < capacity \<Longrightarrow>
     step marshal srv s
       (s\<lparr>chans := (chans s)[c := chans s ! c @ [msg]],
          tasks := (tasks s)[j := Finished]\<rparr>)"

definition reachable :: "(JSONRPCResponse \<Rightarrow> string) \<Rightarrow> Server \<Rightarrow> state \<Rightarrow> bool" where
  "reachable marshal srv s = (step marshal srv)\<^sup>*\<^sup>* init s"

section \<open>The notions the properties are stated with\<close>

subsection \<open>Malformed params, in the words of the specification and as the decoder sees them\<close>

text \<open>
  The specification's malformed params: params is not a JSON object, or the object is
  missing the name field.
\<close>

definition params_malformed_spec :: "json option \<Rightarrow> bool" where
  "params_malformed_spec raw =
     (case raw of
        Some (JObject kvs) \<Rightarrow> ''name'' \<notin> fst ` set kvs
      | _ \<Rightarrow> True)"

text \<open>
  A member the decoder cannot store in a \<open>CallToolRequest\<close>: a name that is neither a
  string nor null, or arguments that are neither an object nor null.
\<close>

definition ill_typed_member :: "string \<times> json \<Rightarrow> bool" where
  "ill_typed_member kv =
     (case field_of [''name'', ''arguments''] (fst kv) of
        None \<Rightarrow> False
      | Some f \<Rightarrow>
          if f = ''name'' then (case snd kv of JString s \<Rightarrow> False | JNull \<Rightarrow> False | _ \<Rightarrow> True)
          else (case snd kv of JObject ms \<Rightarrow> False | JNull \<Rightarrow> False | _ \<Rightarrow> True))"

text \<open>
  Params the decoder rejects for their shape: absent, a value that is neither an object nor
  null, or an object with an ill-typed name or arguments member.
\<close>

definition params_rejected :: "json option \<Rightarrow> bool" where
  "params_rejected raw =
     (case raw of
        None \<Rightarrow> True
      | Some JNull \<Rightarrow> False
      | Some (JObject kvs) \<Rightarrow> list_ex ill_typed_member kvs
      | Some _ \<Rightarrow> True)"

subsection \<open>The identifier of a request\<close>



subsection \<open>The session a request names\<close>

text \<open>The \<open>sessionId\<close> query parameter of a request, as \<open>handleMessage\<close> reads it.\<close>

definition sessionId_of :: "Request \<Rightarrow> string" where
  "sessionId_of r = Get (Query (URL r)) ''sessionId''"

subsection \<open>Streams and channels\<close>

text \<open>
  What a stream has written is in order: nothing before the announcement, and from then
  on the endpoint event of its session followed by message events only.
\<close>

definition stream_ok :: "stream \<Rightarrow> bool" where
  "stream_ok st =
     (if stage st = Announce then written st = []
      else \<exists>ms. written st = endpoint_event (sessionID st) # map message_event ms)"

text \<open>
  A channel is orphaned when every stream that reads it has returned: the connection was
  cancelled and the deferred Delete has removed the session from the directory.
\<close>

definition orphaned :: "state \<Rightarrow> nat \<Rightarrow> bool" where
  "orphaned s c =
     (c < length (chans s) \<and> (\<forall>st \<in> set (streams s). msgChan st = c \<longrightarrow> stage st = Returned))"

subsection \<open>The resource a URL names\<close>

text \<open>
  The outcome of \<open>ParseURL\<close> in the words of its description. The part of the path that
  precedes the first occurrence of the marker:
\<close>

fun before_marker :: "string \<Rightarrow> string \<Rightarrow> string" where
  "before_marker [] marker = []"
| "before_marker (c # cs) marker =
     (if prefix marker (c # cs) then [] else c # before_marker cs marker)"

text \<open>The last segment of a path: what follows its last slash.\<close>

definition last_segment :: "string \<Rightarrow> string" where
  "last_segment s = rev (takeWhile (\<lambda>c. c \<noteq> CHR ''/'') (rev s))"

text \<open>
  The project: the last segment of what precedes the marker, trailing slashes apart,
  unescaped; the empty string when it does not unescape.
\<close>

definition project_before :: "string \<Rightarrow> string \<Rightarrow> string" where
  "project_before path marker =
     (case QueryUnescape (last_segment (TrimRight (before_marker path marker) ''/'')) of
        Inl err \<Rightarrow> []
      | Inr p \<Rightarrow> p)"

text \<open>
  The integer a query parameter gives: the first value of the parameter, when it is a
  decimal integer in the range of \<open>int\<close>.
\<close>

definition int_param :: "URL \<Rightarrow> string \<Rightarrow> int option" where
  "int_param u name = (case Atoi (Get (Query u) name) of Inl err \<Rightarrow> None | Inr n \<Rightarrow> Some n)"

section \<open>Example inputs\<close>

definition failing_handler :: ToolHandler where
  "failing_handler args = (None, Some ''build not found'')"

definition text_handler :: ToolHandler where
  "text_handler args = (Some \<lparr>Content = [\<lparr>Type = ''text'', Text = ''[]''\<rparr>], IsError = False\<rparr>, None)"

definition example_server :: Server where
  "example_server =
     RegisterTool
       (RegisterTool NewServer
          \<lparr>Name = ''list_builds'', Description = ''List recent builds'', InputSchema = JObject []\<rparr>
          text_handler)
       \<lparr>Name = ''get_build'', Description = ''Get build details'', InputSchema = JObject []\<rparr>
       failing_handler"

text \<open>The value of the literal \<open>1e999\<close>.\<close>

definition huge :: rat where
  "huge = 10 ^ 999"

definition call_request :: "json option \<Rightarrow> JSONRPCRequest" where
  "call_request params =
     \<lparr>JSONRPC = ''2.0'', Method = ''tools/call'', Params = params, ID = Some (JNumber 7)\<rparr>"

definition example_sid :: string where
  "example_sid = ''123e4567-e89b-42d3-a456-426614174000''"

definition example_query :: string where
  "example_query = ''sessionId='' @ example_sid"

definition message_request :: "string \<Rightarrow> string \<Rightarrow> json option \<Rightarrow> Request" where
  "message_request method query body =
     \<lparr>Method_http = method, URL = \<lparr>Path = ''/message'', RawQuery = query\<rparr>, Body = body\<rparr>"

definition initialize_body :: json where
  "initialize_body =
     JObject [(''jsonrpc'', JString ''2.0''), (''method'', JString ''initialize''), (''id'', JNumber 1)]"


definition initialize_request :: JSONRPCRequest where
  "initialize_request = \<lparr>JSONRPC = ''2.0'', Method = ''initialize'', Params = None, ID = Some (JNumber 1)\<rparr>"

text \<open>A stand-in for \<open>json.Marshal\<close> in the examples: the envelope without its members.\<close>

definition example_marshal :: "JSONRPCResponse \<Rightarrow> string" where
  "example_marshal resp = ''{}''"

definition example_stream :: "pc \<Rightarrow> string list \<Rightarrow> stream" where
  "example_stream p w = \<lparr>sessionID = example_sid, msgChan = 0, stage = p, written = w\<rparr>"

text \<open>The state after one stream has been opened and has announced its endpoint.\<close>

definition announced :: state where
  "announced =
     \<lparr>sessions = [(example_sid, 0)], chans = [[]],
      streams = [example_stream Loop [endpoint_event example_sid]], tasks = []\<rparr>"

text \<open>The POST of an initialize request to the example session.\<close>

definition example_post :: Request where
  "example_post = message_request ''POST'' example_query (Some initialize_body)"

text \<open>
  The example session after \<open>k\<close> initialize requests were dispatched and their responses
  sent while the stream has not read any of them.
\<close>

definition filled :: "nat \<Rightarrow> state" where
  "filled k =
     \<lparr>sessions = [(example_sid, 0)], chans = [replicate k ''{}''],
      streams = [example_stream Loop [endpoint_event example_sid]],
      tasks = replicate k Finished\<rparr>"

text \<open>
  The same session after one more request was accepted, the connection was cancelled, and
  the request has reached its send: with \<open>k = 10\<close> the buffer is full.
\<close>

definition abandoned :: "nat \<Rightarrow> state" where
  "abandoned k =
     \<lparr>sessions = [], chans = [replicate k ''{}''],
      streams = [example_stream Returned [endpoint_event example_sid]],
      tasks = replicate k Finished @ [Sending ''{}'' 0]\<rparr>"

text \<open>
  What \<open>url.Parse\<close> returns for the URLs of the examples, builds of the projects
  \<open>My Project\<close>, \<open>50%off\<close> and \<open>A+B\<close>: the path comes back decoded.
\<close>

definition example_url :: string where
  "example_url = ''https://ado.example.com/tfs/Coll/My%20Project/_build/results?buildId=42&view=logs''"

definition percent_url :: string where
  "percent_url = ''https://ado.example.com/tfs/Coll/50%25off/_build/results?buildId=7''"

definition plus_url :: string where
  "plus_url = ''https://ado.example.com/tfs/Coll/A+B/_build/results?buildId=7''"

definition example_parse :: "string \<Rightarrow> error + URL" where
  "example_parse rawURL =
     (if rawURL = example_url
      then Inr \<lparr>Path = ''/tfs/Coll/My Project/_build/results'', RawQuery = ''buildId=42&view=logs''\<rparr>
      else if rawURL = percent_url
      then Inr \<lparr>Path = ''/tfs/Coll/50%off/_build/results'', RawQuery = ''buildId=7''\<rparr>
      else if rawURL = plus_url
      then Inr \<lparr>Path = ''/tfs/Coll/A+B/_build/results'', RawQuery = ''buildId=7''\<rparr>
      else Inl ParseError)"

section \<open>Numbers\<close>

text \<open>\<open>floor_log2\<close> is the binary exponent, and a value of \<open>2^1024\<close> or more is out of range.\<close>

lemma power_int_2_unique:
  fixes a :: rat
  assumes "power_int 2 k \<le> a" "a < power_int 2 (k + 1)" "power_int 2 l \<le> a" "a < power_int 2 (l + 1)"
  shows "k = l"
proof -
  have kl: "power_int (2::rat) k < power_int 2 (l + 1)" using assms by linarith
  have "k < l + 1"
  proof (rule ccontr)
    assume "\<not> k < l + 1"
    then have "power_int (2::rat) (l + 1) \<le> power_int 2 k"
      by (intro power_int_increasing) simp_all
    with kl show False by simp
  qed
  moreover have lk: "power_int (2::rat) l < power_int 2 (k + 1)" using assms by linarith
  have "l < k + 1"
  proof (rule ccontr)
    assume "\<not> l < k + 1"
    then have "power_int (2::rat) (k + 1) \<le> power_int 2 l"
      by (intro power_int_increasing) simp_all
    with lk show False by simp
  qed
  ultimately show ?thesis by simp
qed

lemma floor_log2_bounds:
  assumes "0 < a"
  shows "power_int 2 (floor_log2 a) \<le> a \<and> a < power_int 2 (floor_log2 a + 1)"
proof -
  obtain p q where pq: "quotient_of a = (p, q)" by (cases "quotient_of a")
  then have q: "0 < q" and a: "a = of_int p / of_int q"
    using quotient_of_denom_pos quotient_of_div by blast+
  with assms have p: "0 < p"
    by (simp add: zero_less_divide_iff)
  let ?bp = "bitlen p" and ?bq = "bitlen q"
  from bitlen_bounds [OF p] have p1: "2 ^ nat (?bp - 1) \<le> p" and p2: "p < 2 ^ nat ?bp" by simp_all
  from bitlen_bounds [OF q] have q1: "2 ^ nat (?bq - 1) \<le> q" and q2: "q < 2 ^ nat ?bq" by simp_all
  have bp: "1 \<le> ?bp" and bq: "1 \<le> ?bq"
    using p q bitlen_eq_zero_iff [of p] bitlen_eq_zero_iff [of q] bitlen_nonneg [of p] bitlen_nonneg [of q]
    by linarith+
  have P1: "power_int 2 (?bp - 1) \<le> (of_int p :: rat)"
  proof -
    have "(of_int (2 ^ nat (?bp - 1)) :: rat) \<le> of_int p" using p1 by (simp only: of_int_le_iff)
    then show ?thesis using bp by (simp add: power_int_def)
  qed
  have P2: "(of_int p :: rat) < power_int 2 ?bp"
  proof -
    have "(of_int p :: rat) < of_int (2 ^ nat ?bp)" using p2 by (simp only: of_int_less_iff)
    then show ?thesis using bp by (simp add: power_int_def)
  qed
  have Q1: "power_int 2 (?bq - 1) \<le> (of_int q :: rat)"
  proof -
    have "(of_int (2 ^ nat (?bq - 1)) :: rat) \<le> of_int q" using q1 by (simp only: of_int_le_iff)
    then show ?thesis using bq by (simp add: power_int_def)
  qed
  have Q2: "(of_int q :: rat) < power_int 2 ?bq"
  proof -
    have "(of_int q :: rat) < of_int (2 ^ nat ?bq)" using q2 by (simp only: of_int_less_iff)
    then show ?thesis using bq by (simp add: power_int_def)
  qed
  have qpos: "(0::rat) < of_int q" using q by simp
  have up: "a < power_int 2 (?bp - ?bq + 1)"
  proof -
    have "a * of_int q = of_int p" using a qpos by simp
    also have "\<dots> < power_int 2 ?bp" by (rule P2)
    also have "\<dots> = power_int 2 (?bp - ?bq + 1) * power_int 2 (?bq - 1)"
      by (simp flip: power_int_add)
    also have "\<dots> \<le> power_int 2 (?bp - ?bq + 1) * of_int q"
      using Q1 by (intro mult_left_mono) simp_all
    finally show ?thesis using qpos by simp
  qed
  have low: "power_int 2 (?bp - ?bq - 1) < a"
  proof -
    have "power_int 2 (?bp - ?bq - 1) * of_int q < power_int 2 (?bp - ?bq - 1) * power_int (2::rat) ?bq"
      using Q2 by (intro mult_strict_left_mono) simp_all
    also have "\<dots> = power_int 2 (?bp - 1)"
      by (simp flip: power_int_add)
    also have "\<dots> \<le> of_int p" by (rule P1)
    also have "\<dots> = a * of_int q" using a qpos by simp
    finally show ?thesis using qpos by simp
  qed
  show ?thesis
  proof (cases "power_int 2 (?bp - ?bq) \<le> a")
    case True
    then have "floor_log2 a = ?bp - ?bq"
      by (simp add: floor_log2_def pq)
    with True up show ?thesis by simp
  next
    case False
    then have "floor_log2 a = ?bp - ?bq - 1"
      by (simp add: floor_log2_def pq)
    with False low show ?thesis by simp
  qed
qed

lemma floor_log2_eqI:
  assumes "power_int 2 k \<le> a" and "a < power_int 2 (k + 1)"
  shows "floor_log2 a = k"
proof -
  have "(0::rat) < power_int 2 k" by simp
  with assms(1) have "0 < a" by linarith
  from floor_log2_bounds [OF this] assms show ?thesis
    using power_int_2_unique by blast
qed

lemma float64_7: "float64 7 = Some 7"
proof -
  have "floor_log2 7 = 2" by (rule floor_log2_eqI) simp_all
  then show ?thesis
    by (simp add: float64_def round_half_even_def Let_def)
qed

lemma float64_1: "float64 1 = Some 1"
proof -
  have "floor_log2 1 = 0" by (rule floor_log2_eqI) simp_all
  then show ?thesis
    by (simp add: float64_def round_half_even_def Let_def)
qed



lemma round_half_even_ge_floor: "\<lfloor>y\<rfloor> \<le> round_half_even y"
  by (simp add: round_half_even_def Let_def)

lemma float64_out_of_range:
  assumes "2 ^ 1024 \<le> \<bar>x\<bar>"
  shows "float64 x = None"
proof -
  let ?a = "\<bar>x\<bar>"
  let ?l = "floor_log2 ?a"
  let ?e = "max (?l - 52) (- 1074)"
  have "(0::rat) < 2 ^ 1024" by simp
  with assms have pos: "0 < ?a" by linarith
  then have x: "x \<noteq> 0" by simp
  from floor_log2_bounds [OF pos] have lo: "power_int 2 ?l \<le> ?a" and hi: "?a < power_int 2 (?l + 1)"
    by simp_all
  have l: "1024 \<le> ?l"
  proof (rule ccontr)
    assume "\<not> 1024 \<le> ?l"
    then have "power_int (2::rat) (?l + 1) \<le> power_int 2 1024"
      by (intro power_int_increasing) simp_all
    with hi assms show False by simp
  qed
  then have e: "?e = ?l - 52" by simp
  have "(2::rat) ^ 52 = power_int 2 ?l / power_int 2 (?l - 52)"
    by (simp flip: power_int_diff)
  also have "\<dots> \<le> ?a / power_int 2 (?l - 52)"
    using lo by (intro divide_right_mono) simp_all
  finally have "(of_int (2 ^ 52) :: rat) \<le> ?a / power_int 2 (?l - 52)" by simp
  then have "2 ^ 52 \<le> \<lfloor>?a / power_int 2 (?l - 52)\<rfloor>"
    by (simp only: le_floor_iff)
  then have m: "2 ^ 52 \<le> round_half_even (?a / power_int 2 (?l - 52))"
    using round_half_even_ge_floor [of "?a / power_int 2 (?l - 52)"] by linarith
  have "(2::rat) ^ 1024 \<le> power_int 2 ?l"
    using l power_int_increasing [of 1024 ?l "2::rat"] by simp
  also have "\<dots> = power_int 2 (52 + (?l - 52))"
    by simp
  also have "\<dots> = power_int 2 52 * power_int 2 (?l - 52)"
    by (rule power_int_add) simp
  also have "\<dots> = 2 ^ 52 * power_int 2 (?l - 52)"
    by simp
  also have "\<dots> \<le> of_int (round_half_even (?a / power_int 2 (?l - 52))) * power_int 2 (?l - 52)"
  proof (intro mult_right_mono)
    have "(of_int (2 ^ 52) :: rat) \<le> of_int (round_half_even (?a / power_int 2 (?l - 52)))"
      using m by (simp only: of_int_le_iff)
    then show "(2::rat) ^ 52 \<le> of_int (round_half_even (?a / power_int 2 (?l - 52)))" by simp
  qed simp
  finally show ?thesis
    using x e by (simp add: float64_def Let_def)
qed


lemma float64_huge: "float64 huge = None"
  unfolding huge_def
proof (rule float64_out_of_range)
  have "(2::rat) ^ 1024 \<le> 2 ^ (10 * 103)"
    by (rule power_increasing) simp_all
  also have "\<dots> = (2 ^ 10) ^ 103"
    by (rule power_mult)
  also have "\<dots> \<le> (10 ^ 4) ^ 103"
    by (rule power_mono) simp_all
  also have "\<dots> = 10 ^ (4 * 103)"
    by (rule power_mult [symmetric])
  also have "\<dots> \<le> 10 ^ 999"
    by (rule power_increasing) simp_all
  finally have "(2::rat) ^ 1024 \<le> 10 ^ 999" .
  moreover have "(0::rat) \<le> 10 ^ 999"
    by (rule zero_le_power) simp
  ultimately show "(2::rat) ^ 1024 \<le> \<bar>10 ^ 999\<bar>"
    by (simp only: abs_of_nonneg)
qed

section \<open>The decoder\<close>

lemma decode_member_ill_typed:
  assumes "ill_typed_member kv"
  shows "\<exists>e. decode_CallToolRequest_member kv c = Inl e"
  using assms
  by (auto simp: decode_CallToolRequest_member_def ill_typed_member_def
           split: option.splits json.splits if_splits)

lemma decode_members_ill_typed:
  assumes "list_ex ill_typed_member kvs"
  shows "\<exists>e. decode_CallToolRequest_members kvs c = Inl e"
  using assms
proof (induction kvs arbitrary: c)
  case Nil
  then show ?case by simp
next
  case (Cons kv kvs)
  show ?case
  proof (cases "decode_CallToolRequest_member kv c")
    case (Inl e)
    then show ?thesis by simp
  next
    case (Inr c')
    then have "\<not> ill_typed_member kv"
      using decode_member_ill_typed [of kv c] by auto
    with Cons.prems have "list_ex ill_typed_member kvs" by simp
    with Inr Cons.IH [of c'] show ?thesis by simp
  qed
qed

lemma Unmarshal_rejected:
  assumes "params_rejected raw"
  shows "\<exists>e. Unmarshal_CallToolRequest raw = Inl e"
proof (cases raw)
  case None
  then show ?thesis by (simp add: Unmarshal_CallToolRequest_def)
next
  case (Some v)
  with assms show ?thesis
    using decode_members_ill_typed
    by (cases v) (simp_all add: Unmarshal_CallToolRequest_def params_rejected_def)
qed

section \<open>The dispatcher\<close>

lemma processRequest_invalid_params:
  assumes "Method req = ''tools/call''" and "Unmarshal_CallToolRequest (Params req) = Inl e"
  shows "processRequest s req =
           \<lparr>invoked = [],
            response = Some \<lparr>JSONRPC_resp = ''2.0'', Result = None,
              Error = Some \<lparr>Code = - 32602, Message = ''Invalid params'', Data = None\<rparr>,
              ID_resp = ID req\<rparr>\<rparr>"
  using assms by (simp add: processRequest_def)

lemma processRequest_call:
  assumes "Method req = ''tools/call''" and "Unmarshal_CallToolRequest (Params req) = Inr callReq"
  shows "processRequest s req =
           (case map_of (Handlers s) (Name_call callReq) of
              None \<Rightarrow>
                \<lparr>invoked = [],
                 response = Some \<lparr>JSONRPC_resp = ''2.0'', Result = None,
                   Error = Some \<lparr>Code = - 32601, Message = ''Method not found'', Data = None\<rparr>,
                   ID_resp = ID req\<rparr>\<rparr>
            | Some handler \<Rightarrow>
                \<lparr>invoked = [(Name_call callReq, Arguments callReq)],
                 response = Some \<lparr>JSONRPC_resp = ''2.0'',
                   Result = Some (case snd (handler (Arguments callReq)) of
                                    Some err \<Rightarrow> ResultValue \<lparr>Content = [\<lparr>Type = ''text'', Text = err\<rparr>], IsError = True\<rparr>
                                  | None \<Rightarrow> ResultPtr (fst (handler (Arguments callReq)))),
                   Error = None, ID_resp = ID req\<rparr>\<rparr>)"
  using assms by (simp add: processRequest_def split: option.splits prod.splits)

text \<open>
  A number out of the float64 range inside the arguments makes the params invalid, which
  the handler never sees.
\<close>

lemma out_of_range_argument_invalid_params:
  "processRequest example_server
     (call_request (Some (JObject [(''name'', JString ''get_build''),
                                   (''arguments'', JObject [(''x'', JNumber huge)])]))) =
   \<lparr>invoked = [],
    response = Some \<lparr>JSONRPC_resp = ''2.0'', Result = None,
      Error = Some \<lparr>Code = - 32602, Message = ''Invalid params'', Data = None\<rparr>,
      ID_resp = Some (JNumber 7)\<rparr>\<rparr>"
proof -
  let ?req = "call_request (Some (JObject [(''name'', JString ''get_build''),
                                           (''arguments'', JObject [(''x'', JNumber huge)])]))"
  have m: "Method ?req = ''tools/call''"
    by (simp add: call_request_def)
  have u: "Unmarshal_CallToolRequest (Params ?req) = Inl UnmarshalTypeError"
    by (simp add: call_request_def Unmarshal_CallToolRequest_def decode_CallToolRequest_member_def
          field_of_def float64_huge)
  show ?thesis
    using processRequest_invalid_params [OF m u, of example_server]
    by (simp add: call_request_def)
qed

lemma example_handlers:
  "Handlers example_server = [(''list_builds'', text_handler), (''get_build'', failing_handler)]"
  by (simp add: example_server_def RegisterTool_def NewServer_def)

text \<open>
  C1, as stated, fails: params that are an object without a name member are malformed in
  the specification's sense, yet the decoder accepts them with the empty name, the lookup
  of that name finds no handler, and the error is -32601, not -32602.
\<close>

theorem missing_name_is_method_not_found:
  "params_malformed_spec (Some (JObject [(''arguments'', JObject [])])) \<and>
   response (processRequest example_server (call_request (Some (JObject [(''arguments'', JObject [])])))) =
     Some \<lparr>JSONRPC_resp = ''2.0'', Result = None,
       Error = Some \<lparr>Code = - 32601, Message = ''Method not found'', Data = None\<rparr>,
       ID_resp = Some (JNumber 7)\<rparr>"
proof -
  have m: "Method (call_request (Some (JObject [(''arguments'', JObject [])]))) = ''tools/call''"
    by (simp add: call_request_def)
  have u: "Unmarshal_CallToolRequest (Params (call_request (Some (JObject [(''arguments'', JObject [])])))) =
             Inr \<lparr>Name_call = [], Arguments = []\<rparr>"
    unfolding call_request_def by code_simp
  have s: "params_malformed_spec (Some (JObject [(''arguments'', JObject [])]))"
    by (simp add: params_malformed_spec_def)
  show ?thesis
    using s by (simp add: processRequest_call [OF m u] example_handlers) (simp add: call_request_def)
qed

text \<open>
  C1, amended: for every tools/call request whose params the decoder rejects (params
  absent, a JSON value that is neither an object nor null, or an object whose name member
  is neither a string nor null or whose arguments member is neither an object nor null),
  the dispatcher produces the JSON-RPC error -32602 and invokes no handler.
\<close>

theorem rejected_params_invalid_params:
  assumes "Method req = ''tools/call''" and "params_rejected (Params req)"
  shows "processRequest s req =
           \<lparr>invoked = [],
            response = Some \<lparr>JSONRPC_resp = ''2.0'', Result = None,
              Error = Some \<lparr>Code = - 32602, Message = ''Invalid params'', Data = None\<rparr>,
              ID_resp = ID req\<rparr>\<rparr>"
proof -
  from assms(2) obtain e where "Unmarshal_CallToolRequest (Params req) = Inl e"
    using Unmarshal_rejected by blast
  with assms(1) show ?thesis by (rule processRequest_invalid_params)
qed

theorem rejected_params_invalid_params_witness:
  "Method (call_request (Some (JArray [JString ''get_build'']))) = ''tools/call'' \<and>
   params_rejected (Params (call_request (Some (JArray [JString ''get_build''])))) \<and>
   processRequest example_server (call_request (Some (JArray [JString ''get_build'']))) =
     \<lparr>invoked = [],
      response = Some \<lparr>JSONRPC_resp = ''2.0'', Result = None,
        Error = Some \<lparr>Code = - 32602, Message = ''Invalid params'', Data = None\<rparr>,
        ID_resp = Some (JNumber 7)\<rparr>\<rparr>"
proof -
  have m: "Method (call_request (Some (JArray [JString ''get_build'']))) = ''tools/call''"
    by (simp add: call_request_def)
  have r: "params_rejected (Params (call_request (Some (JArray [JString ''get_build'']))))"
    by (simp add: call_request_def params_rejected_def)
  show ?thesis
    using m r rejected_params_invalid_params [OF m r, of example_server]
    by (simp add: call_request_def)
qed


text \<open>
  C3: a tools/call request that names a registered tool whose handler returns an error
  gets a success envelope: no error object, and a result that is a CallToolResult with
  isError set and exactly one text block, the error's message.
\<close>

theorem handler_failure_in_band:
  assumes "Method req = ''tools/call''"
    and "Unmarshal_CallToolRequest (Params req) = Inr callReq"
    and "map_of (Handlers s) (Name_call callReq) = Some handler"
    and "handler (Arguments callReq) = (res, Some msg)"
  shows "response (processRequest s req) =
           Some \<lparr>JSONRPC_resp = ''2.0'',
             Result = Some (ResultValue \<lparr>Content = [\<lparr>Type = ''text'', Text = msg\<rparr>], IsError = True\<rparr>),
             Error = None, ID_resp = ID req\<rparr>"
  using assms by (simp add: processRequest_call)

theorem handler_failure_in_band_witness:
  "Unmarshal_CallToolRequest (Params (call_request (Some (JObject [(''name'', JString ''get_build'')])))) =
     Inr \<lparr>Name_call = ''get_build'', Arguments = []\<rparr> \<and>
   map_of (Handlers example_server) ''get_build'' = Some failing_handler \<and>
   failing_handler [] = (None, Some ''build not found'') \<and>
   response (processRequest example_server (call_request (Some (JObject [(''name'', JString ''get_build'')])))) =
     Some \<lparr>JSONRPC_resp = ''2.0'',
       Result = Some (ResultValue \<lparr>Content = [\<lparr>Type = ''text'', Text = ''build not found''\<rparr>], IsError = True\<rparr>),
       Error = None, ID_resp = Some (JNumber 7)\<rparr>"
proof -
  let ?req = "call_request (Some (JObject [(''name'', JString ''get_build'')]))"
  let ?callReq = "\<lparr>Name_call = ''get_build'', Arguments = []\<rparr>"
  have m: "Method ?req = ''tools/call''"
    by (simp add: call_request_def)
  have u: "Unmarshal_CallToolRequest (Params ?req) = Inr ?callReq"
    unfolding call_request_def by code_simp
  have h: "map_of (Handlers example_server) (Name_call ?callReq) = Some failing_handler"
    by (simp add: example_handlers)
  have f: "failing_handler (Arguments ?callReq) = (None, Some ''build not found'')"
    by (simp add: failing_handler_def)
  show ?thesis
    using u h f handler_failure_in_band [OF m u h f]
    by (simp add: call_request_def)
qed

text \<open>
  C4: a tools/call request whose params decode and name a tool with no handler in the
  registry gets the JSON-RPC error -32601 and no result; no handler is invoked.
\<close>

theorem unregistered_tool_method_not_found:
  assumes "Method req = ''tools/call''"
    and "Unmarshal_CallToolRequest (Params req) = Inr callReq"
    and "map_of (Handlers s) (Name_call callReq) = None"
  shows "processRequest s req =
           \<lparr>invoked = [],
            response = Some \<lparr>JSONRPC_resp = ''2.0'', Result = None,
              Error = Some \<lparr>Code = - 32601, Message = ''Method not found'', Data = None\<rparr>,
              ID_resp = ID req\<rparr>\<rparr>"
  using assms by (simp add: processRequest_call)

theorem unregistered_tool_method_not_found_witness:
  "Unmarshal_CallToolRequest (Params (call_request (Some (JObject [(''name'', JString ''get_release'')])))) =
     Inr \<lparr>Name_call = ''get_release'', Arguments = []\<rparr> \<and>
   map_of (Handlers example_server) ''get_release'' = None \<and>
   processRequest example_server (call_request (Some (JObject [(''name'', JString ''get_release'')]))) =
     \<lparr>invoked = [],
      response = Some \<lparr>JSONRPC_resp = ''2.0'', Result = None,
        Error = Some \<lparr>Code = - 32601, Message = ''Method not found'', Data = None\<rparr>,
        ID_resp = Some (JNumber 7)\<rparr>\<rparr>"
proof -
  let ?req = "call_request (Some (JObject [(''name'', JString ''get_release'')]))"
  let ?callReq = "\<lparr>Name_call = ''get_release'', Arguments = []\<rparr>"
  have m: "Method ?req = ''tools/call''"
    by (simp add: call_request_def)
  have u: "Unmarshal_CallToolRequest (Params ?req) = Inr ?callReq"
    unfolding call_request_def by code_simp
  have h: "map_of (Handlers example_server) (Name_call ?callReq) = None"
    by (simp add: example_handlers)
  show ?thesis
    using u h unregistered_tool_method_not_found [OF m u h]
    by (simp add: call_request_def)
qed






lemma example_body: "Decode_JSONRPCRequest (Some initialize_body) = Inr initialize_request"
  by (simp add: Decode_JSONRPCRequest_def decode_JSONRPCRequest_member_def field_of_def
        initialize_body_def initialize_request_def float64_1)




text \<open>
  C8: every response the dispatcher produces has exactly one of result and error set. (A
  handler that returns a nil result and a nil error leaves a nil pointer in the result
  field, which is set all the same and is marshalled as null.)
\<close>

theorem result_xor_error:
  assumes "response (processRequest s req) = Some resp"
  shows "(Result resp = None) \<noteq> (Error resp = None)"
  using assms
  by (auto simp: processRequest_def Let_def split: if_splits sum.splits option.splits prod.splits)

theorem result_xor_error_witness:
  "response (processRequest example_server
      \<lparr>JSONRPC = ''2.0'', Method = ''initialize'', Params = None, ID = Some (JNumber 1)\<rparr>) =
     Some \<lparr>JSONRPC_resp = ''2.0'', Result = Some (LiteralMap initialize_result), Error = None,
       ID_resp = Some (JNumber 1)\<rparr> \<and>
   (Result \<lparr>JSONRPC_resp = ''2.0'', Result = Some (LiteralMap initialize_result), Error = None,
       ID_resp = Some (JNumber 1)\<rparr> = None) \<noteq>
   (Error \<lparr>JSONRPC_resp = ''2.0'', Result = Some (LiteralMap initialize_result), Error = None,
       ID_resp = Some (JNumber 1)\<rparr> = None)"
proof -
  have r: "response (processRequest example_server
      \<lparr>JSONRPC = ''2.0'', Method = ''initialize'', Params = None, ID = Some (JNumber 1)\<rparr>) =
     Some \<lparr>JSONRPC_resp = ''2.0'', Result = Some (LiteralMap initialize_result), Error = None,
       ID_resp = Some (JNumber 1)\<rparr>"
    by (simp add: processRequest_def)
  show ?thesis
    using r result_xor_error [OF r] by simp
qed

section \<open>The request receiver\<close>

lemma example_sessionId:
  "sessionId_of (message_request m example_query b) = example_sid"
  unfolding sessionId_of_def message_request_def example_query_def example_sid_def by code_simp

text \<open>A body whose id is a number out of the float64 range does not decode: 400.\<close>

lemma out_of_range_id_invalid_json:
  "handleMessage [(example_sid, 0)]
     (message_request ''POST'' example_query
        (Some (JObject [(''jsonrpc'', JString ''2.0''), (''method'', JString ''initialize''),
                        (''id'', JNumber huge)]))) =
   (http_Error ''Invalid JSON'' 400, None)"
proof -
  let ?body = "JObject [(''jsonrpc'', JString ''2.0''), (''method'', JString ''initialize''),
                        (''id'', JNumber huge)]"
  let ?r = "message_request ''POST'' example_query (Some ?body)"
  have m: "Method_http ?r = ''POST''" and b: "Body ?r = Some ?body"
    by (simp_all add: message_request_def)
  have q: "Get (Query (URL ?r)) ''sessionId'' = example_sid"
    using example_sessionId [of "''POST''" "Some ?body"] by (simp add: sessionId_of_def)
  have ne: "example_sid \<noteq> []"
    by (simp add: example_sid_def)
  have d: "Decode_JSONRPCRequest (Some ?body) = Inl UnmarshalTypeError"
    by (simp add: Decode_JSONRPCRequest_def decode_JSONRPCRequest_member_def field_of_def float64_huge)
  show ?thesis
    by (simp add: handleMessage_def m b q ne d)
qed

text \<open>
  C5: \<open>handleMessage\<close> answers 202 with an empty body and starts the dispatcher on the
  decoded request when the method is POST, the sessionId parameter is not empty and names
  a session of the directory, and the body decodes. It answers 405 when the method is not
  POST, 400 when the sessionId is missing, 404 when it names no session and 400 when the
  body does not decode, and starts nothing in any of these cases. Each line is stated for
  a request that passes the checks the code makes before it (method, sessionId, session,
  body).
\<close>

theorem handleMessage_status:
  "(Method_http r = ''POST'' \<and> sessionId_of r \<noteq> [] \<and> map_of dir (sessionId_of r) = Some c \<and>
      Decode_JSONRPCRequest (Body r) = Inr req \<longrightarrow>
        handleMessage dir r = (\<lparr>Status = 202, Written = []\<rparr>, Some (req, c))) \<and>
   (Method_http r \<noteq> ''POST'' \<longrightarrow>
        Status (fst (handleMessage dir r)) = 405 \<and> snd (handleMessage dir r) = None) \<and>
   (Method_http r = ''POST'' \<and> sessionId_of r = [] \<longrightarrow>
        Status (fst (handleMessage dir r)) = 400 \<and> snd (handleMessage dir r) = None) \<and>
   (Method_http r = ''POST'' \<and> sessionId_of r \<noteq> [] \<and> map_of dir (sessionId_of r) = None \<longrightarrow>
        Status (fst (handleMessage dir r)) = 404 \<and> snd (handleMessage dir r) = None) \<and>
   (Method_http r = ''POST'' \<and> sessionId_of r \<noteq> [] \<and> map_of dir (sessionId_of r) = Some c \<and>
      Decode_JSONRPCRequest (Body r) = Inl e \<longrightarrow>
        Status (fst (handleMessage dir r)) = 400 \<and> snd (handleMessage dir r) = None)"
proof (intro conjI impI)
  assume "Method_http r = ''POST'' \<and> sessionId_of r \<noteq> [] \<and> map_of dir (sessionId_of r) = Some c \<and>
      Decode_JSONRPCRequest (Body r) = Inr req"
  then show "handleMessage dir r = (\<lparr>Status = 202, Written = []\<rparr>, Some (req, c))"
    by (simp add: handleMessage_def sessionId_of_def)
next
  assume "Method_http r \<noteq> ''POST''"
  then show "Status (fst (handleMessage dir r)) = 405" and "snd (handleMessage dir r) = None"
    by (simp_all add: handleMessage_def http_Error_def)
next
  assume "Method_http r = ''POST'' \<and> sessionId_of r = []"
  then show "Status (fst (handleMessage dir r)) = 400" and "snd (handleMessage dir r) = None"
    by (simp_all add: handleMessage_def sessionId_of_def http_Error_def)
next
  assume "Method_http r = ''POST'' \<and> sessionId_of r \<noteq> [] \<and> map_of dir (sessionId_of r) = None"
  then show "Status (fst (handleMessage dir r)) = 404" and "snd (handleMessage dir r) = None"
    by (simp_all add: handleMessage_def sessionId_of_def http_Error_def)
next
  assume "Method_http r = ''POST'' \<and> sessionId_of r \<noteq> [] \<and> map_of dir (sessionId_of r) = Some c \<and>
      Decode_JSONRPCRequest (Body r) = Inl e"
  then show "Status (fst (handleMessage dir r)) = 400" and "snd (handleMessage dir r) = None"
    by (simp_all add: handleMessage_def sessionId_of_def http_Error_def)
qed

theorem handleMessage_status_witness:
  "handleMessage [(example_sid, 0)] (message_request ''POST'' example_query (Some initialize_body)) =
     (\<lparr>Status = 202, Written = []\<rparr>, Some (initialize_request, 0)) \<and>
   Status (fst (handleMessage [(example_sid, 0)]
     (message_request ''GET'' example_query (Some initialize_body)))) = 405 \<and>
   Status (fst (handleMessage [(example_sid, 0)] (message_request ''POST'' [] (Some initialize_body)))) = 400 \<and>
   Status (fst (handleMessage [] (message_request ''POST'' example_query (Some initialize_body)))) = 404 \<and>
   Status (fst (handleMessage [(example_sid, 0)]
     (message_request ''POST'' example_query (Some (JArray []))))) = 400"
proof -
  have ne: "example_sid \<noteq> []"
    by (simp add: example_sid_def)
  have post: "\<And>q b. Method_http (message_request ''POST'' q b) = ''POST''"
    by (simp add: message_request_def)
  have body: "\<And>m q b. Body (message_request m q b) = b"
    by (simp add: message_request_def)
  have a: "handleMessage [(example_sid, 0)] (message_request ''POST'' example_query (Some initialize_body)) =
             (\<lparr>Status = 202, Written = []\<rparr>, Some (initialize_request, 0))"
    using handleMessage_status
      [of "message_request ''POST'' example_query (Some initialize_body)" "[(example_sid, 0)]" 0 initialize_request]
    by (simp add: post body example_sessionId example_body ne)
  have b: "Status (fst (handleMessage [(example_sid, 0)]
             (message_request ''GET'' example_query (Some initialize_body)))) = 405"
    using handleMessage_status
      [of "message_request ''GET'' example_query (Some initialize_body)" "[(example_sid, 0)]"]
    by (simp add: message_request_def)
  have no_sid: "sessionId_of (message_request ''POST'' [] (Some initialize_body)) = []"
    unfolding sessionId_of_def message_request_def by code_simp
  have c: "Status (fst (handleMessage [(example_sid, 0)]
             (message_request ''POST'' [] (Some initialize_body)))) = 400"
    using handleMessage_status
      [of "message_request ''POST'' [] (Some initialize_body)" "[(example_sid, 0)]"]
    by (simp add: post no_sid)
  have d: "Status (fst (handleMessage [] (message_request ''POST'' example_query (Some initialize_body)))) = 404"
    using handleMessage_status [of "message_request ''POST'' example_query (Some initialize_body)" "[]"]
    by (simp add: post example_sessionId ne)
  have bad: "Decode_JSONRPCRequest (Some (JArray [])) = Inl UnmarshalTypeError"
    by (simp add: Decode_JSONRPCRequest_def)
  have e: "Status (fst (handleMessage [(example_sid, 0)]
             (message_request ''POST'' example_query (Some (JArray []))))) = 400"
    using handleMessage_status
      [of "message_request ''POST'' example_query (Some (JArray []))" "[(example_sid, 0)]" 0 _ UnmarshalTypeError]
    by (simp add: post body example_sessionId bad ne)
  from a b c d e show ?thesis by simp
qed

section \<open>The streaming transport\<close>

lemma stream_okI:
  assumes "stage st \<noteq> Announce"
    and "written st = endpoint_event (sessionID st) # map message_event ms"
  shows "stream_ok st"
  using assms unfolding stream_ok_def by auto

lemma stream_ok_announce:
  assumes "stream_ok st" and "stage st = Announce"
  shows "stream_ok (st\<lparr>stage := Loop, written := written st @ [endpoint_event (sessionID st)]\<rparr>)"
proof (rule stream_okI [where ms = "[]"])
  from assms have "written st = []"
    by (simp add: stream_ok_def)
  then show "written (st\<lparr>stage := Loop, written := written st @ [endpoint_event (sessionID st)]\<rparr>) =
        endpoint_event (sessionID (st\<lparr>stage := Loop, written := written st @ [endpoint_event (sessionID st)]\<rparr>)) #
        map message_event []"
    by simp
qed simp

lemma stream_ok_Loop:
  assumes "stream_ok st" and "stage st = Loop"
  obtains ms where "written st = endpoint_event (sessionID st) # map message_event ms"
  using assms unfolding stream_ok_def by auto

lemma stream_ok_receive:
  assumes "stream_ok st" and "stage st = Loop"
  shows "stream_ok (st\<lparr>written := written st @ [message_event msg]\<rparr>)"
proof -
  from assms obtain ms where "written st = endpoint_event (sessionID st) # map message_event ms"
    by (rule stream_ok_Loop)
  then have w: "written (st\<lparr>written := written st @ [message_event msg]\<rparr>) =
      endpoint_event (sessionID (st\<lparr>written := written st @ [message_event msg]\<rparr>)) #
      map message_event (ms @ [msg])"
    by simp
  from assms(2) have "stage (st\<lparr>written := written st @ [message_event msg]\<rparr>) \<noteq> Announce"
    by simp
  then show ?thesis using w by (rule stream_okI)
qed

lemma stream_ok_cancel:
  assumes "stream_ok st" and "stage st = Loop"
  shows "stream_ok (st\<lparr>stage := Returned\<rparr>)"
proof -
  from assms obtain ms where "written st = endpoint_event (sessionID st) # map message_event ms"
    by (rule stream_ok_Loop)
  then have w: "written (st\<lparr>stage := Returned\<rparr>) =
      endpoint_event (sessionID (st\<lparr>stage := Returned\<rparr>)) # map message_event ms"
    by simp
  have "stage (st\<lparr>stage := Returned\<rparr>) \<noteq> Announce"
    by simp
  then show ?thesis using w by (rule stream_okI)
qed

lemma list_all_update:
  assumes "\<forall>x \<in> set xs. P x" and "P y"
  shows "\<forall>x \<in> set (xs[i := y]). P x"
  using assms set_update_subset_insert [of xs i y] by auto

lemma step_streams_ok:
  assumes "step marshal srv s s'" and "\<forall>st \<in> set (streams s). stream_ok st"
  shows "\<forall>st \<in> set (streams s'). stream_ok st"
  using assms(1)
proof (cases rule: step.cases)
  case (open_stream sid)
  have "stream_ok \<lparr>sessionID = sid, msgChan = length (chans s), stage = Announce, written = []\<rparr>"
    by (simp add: stream_ok_def)
  with assms(2) show ?thesis
    unfolding open_stream by simp
next
  case (announce i st)
  then have "st \<in> set (streams s)" using nth_mem by blast
  with assms(2) have "stream_ok st" by blast
  then have "stream_ok (st\<lparr>stage := Loop, written := written st @ [endpoint_event (sessionID st)]\<rparr>)"
    using announce(4) by (rule stream_ok_announce)
  with assms(2) have "\<forall>x \<in> set ((streams s)[i := st\<lparr>stage := Loop,
      written := written st @ [endpoint_event (sessionID st)]\<rparr>]). stream_ok x"
    by (rule list_all_update)
  then show ?thesis
    unfolding announce(1) by simp
next
  case (receive i st msg rest)
  then have "st \<in> set (streams s)" using nth_mem by blast
  with assms(2) have "stream_ok st" by blast
  then have "stream_ok (st\<lparr>written := written st @ [message_event msg]\<rparr>)"
    using receive(4) by (rule stream_ok_receive)
  with assms(2) have "\<forall>x \<in> set ((streams s)[i := st\<lparr>written := written st @ [message_event msg]\<rparr>]).
      stream_ok x"
    by (rule list_all_update)
  then show ?thesis
    unfolding receive(1) by simp
next
  case (cancel i st)
  then have "st \<in> set (streams s)" using nth_mem by blast
  with assms(2) have "stream_ok st" by blast
  then have "stream_ok (st\<lparr>stage := Returned\<rparr>)"
    using cancel(4) by (rule stream_ok_cancel)
  with assms(2) have "\<forall>x \<in> set ((streams s)[i := st\<lparr>stage := Returned\<rparr>]). stream_ok x"
    by (rule list_all_update)
  then show ?thesis
    unfolding cancel(1) by simp
next
  case (post r w req c)
  with assms(2) show ?thesis by simp
next
  case (run j req c)
  with assms(2) show ?thesis by simp
next
  case (send j msg c)
  with assms(2) show ?thesis by simp
qed

lemma reachable_streams_ok:
  assumes "reachable marshal srv s"
  shows "\<forall>st \<in> set (streams s). stream_ok st"
  using assms unfolding reachable_def
proof (induction rule: rtranclp_induct)
  case base
  show ?case by (simp add: init_def)
next
  case (step y z)
  from step(2,3) show ?case by (rule step_streams_ok)
qed

lemma endpoint_is_no_message: "endpoint_event sid \<noteq> message_event msg"
  by (simp add: endpoint_event_def message_event_def)

lemma reachable_announced: "reachable example_marshal example_server announced"
proof -
  let ?opened = "\<lparr>sessions = [(example_sid, 0)], chans = [[]],
                   streams = [example_stream Announce []], tasks = []\<rparr>"
  have uuid: "is_uuid example_sid"
    unfolding example_sid_def by code_simp
  have a: "step example_marshal example_server init ?opened"
    using step.open_stream [OF uuid, of example_marshal example_server init]
    by (simp add: init_def example_stream_def)
  have b: "step example_marshal example_server ?opened announced"
    using step.announce [of 0 ?opened "example_stream Announce []" example_marshal example_server]
    by (simp add: announced_def example_stream_def)
  from a have "(step example_marshal example_server)\<^sup>*\<^sup>* init ?opened"
    by (rule r_into_rtranclp)
  then show ?thesis
    unfolding reachable_def using b by (rule rtranclp.rtrancl_into_rtrancl)
qed

text \<open>
  C6: in every reachable state, whatever a stream has written starts with the endpoint
  event, whose data is the message path with the stream's session identifier as the
  sessionId parameter; the endpoint event is no message event, and every event after it
  is a message event.
\<close>

theorem endpoint_event_first:
  assumes "reachable marshal srv s" and "st \<in> set (streams s)" and "written st = e # es"
  shows "e = ''event: endpoint'' @ [CHR 0x0A] @ ''data: /message?sessionId='' @ sessionID st @ [CHR 0x0A, CHR 0x0A] \<and>
         (\<forall>msg. e \<noteq> message_event msg) \<and>
         (\<exists>ms. es = map message_event ms)"
proof -
  from assms(1,2) have "stream_ok st"
    using reachable_streams_ok by blast
  with assms(3) have e: "e = endpoint_event (sessionID st)" and es: "\<exists>ms. es = map message_event ms"
    by (auto simp: stream_ok_def split: if_splits)
  from e have "\<forall>msg. e \<noteq> message_event msg"
    by (simp add: endpoint_is_no_message)
  with e es show ?thesis
    by (simp add: endpoint_event_def)
qed

theorem endpoint_event_first_witness:
  "reachable example_marshal example_server announced \<and>
   example_stream Loop [endpoint_event example_sid] \<in> set (streams announced) \<and>
   endpoint_event example_sid =
     ''event: endpoint'' @ [CHR 0x0A] @ ''data: /message?sessionId='' @ example_sid @ [CHR 0x0A, CHR 0x0A]"
proof -
  have m: "example_stream Loop [endpoint_event example_sid] \<in> set (streams announced)"
    by (simp add: announced_def)
  have w: "written (example_stream Loop [endpoint_event example_sid]) = endpoint_event example_sid # []"
    by (simp add: example_stream_def)
  show ?thesis
    using reachable_announced m endpoint_event_first [OF reachable_announced m w]
    by (simp add: example_stream_def)
qed

section \<open>Sending to the channel of a cancelled session\<close>

lemma orphaned_not_reading:
  assumes "orphaned s c" and "i < length (streams s)" and "streams s ! i = st" and "stage st \<noteq> Returned"
  shows "msgChan st \<noteq> c"
proof -
  from assms(2,3) have "st \<in> set (streams s)" using nth_mem by blast
  with assms(1,4) show ?thesis unfolding orphaned_def by blast
qed

lemma orphaned_update:
  assumes "orphaned s c" and "msgChan st' = c \<longrightarrow> stage st' = Returned"
  shows "\<forall>x \<in> set ((streams s)[i := st']). msgChan x = c \<longrightarrow> stage x = Returned"
proof -
  from assms(1) have "\<forall>x \<in> set (streams s). msgChan x = c \<longrightarrow> stage x = Returned"
    unfolding orphaned_def by blast
  then show ?thesis using assms(2) by (rule list_all_update)
qed

lemma step_orphaned:
  assumes "step marshal srv s s'" and "orphaned s c"
  shows "orphaned s' c \<and> prefix (chans s ! c) (chans s' ! c)"
  using assms(1)
proof (cases rule: step.cases)
  case (open_stream sid)
  from assms(2) show ?thesis
    unfolding open_stream orphaned_def by (auto simp: nth_append)
next
  case (announce i st)
  then have ne: "msgChan st \<noteq> c"
    using orphaned_not_reading [OF assms(2), of i st] by simp
  have "\<forall>x \<in> set ((streams s)[i := st\<lparr>stage := Loop,
      written := written st @ [endpoint_event (sessionID st)]\<rparr>]). msgChan x = c \<longrightarrow> stage x = Returned"
    by (rule orphaned_update [OF assms(2)]) (simp add: ne)
  with assms(2) show ?thesis
    unfolding announce(1) orphaned_def by simp
next
  case (receive i st msg rest)
  then have ne: "msgChan st \<noteq> c"
    using orphaned_not_reading [OF assms(2), of i st] by simp
  have "\<forall>x \<in> set ((streams s)[i := st\<lparr>written := written st @ [message_event msg]\<rparr>]).
      msgChan x = c \<longrightarrow> stage x = Returned"
    by (rule orphaned_update [OF assms(2)]) (simp add: ne)
  with assms(2) ne show ?thesis
    unfolding receive(1) orphaned_def by simp
next
  case (cancel i st)
  have "\<forall>x \<in> set ((streams s)[i := st\<lparr>stage := Returned\<rparr>]). msgChan x = c \<longrightarrow> stage x = Returned"
    by (rule orphaned_update [OF assms(2)]) simp
  with assms(2) show ?thesis
    unfolding cancel(1) orphaned_def by simp
next
  case (post r w req c')
  with assms(2) show ?thesis by (simp add: orphaned_def)
next
  case (run j req c')
  with assms(2) show ?thesis by (simp add: orphaned_def)
next
  case (send j msg c')
  with assms(2) show ?thesis
    by (cases "c' = c") (simp_all add: orphaned_def)
qed

lemma steps_orphaned:
  assumes "(step marshal srv)\<^sup>*\<^sup>* s s'" and "orphaned s c"
  shows "orphaned s' c \<and> prefix (chans s ! c) (chans s' ! c)"
  using assms
proof (induction rule: rtranclp_induct)
  case base
  then show ?case by simp
next
  case (step y z)
  then have y: "orphaned y c" and p: "prefix (chans s ! c) (chans y ! c)"
    by simp_all
  from step(2) y have "orphaned z c \<and> prefix (chans y ! c) (chans z ! c)"
    by (rule step_orphaned)
  with p show ?case
    using prefix_order.order_trans by blast
qed

text \<open>A task at its send on a full orphaned channel stays there, and the channel stays full.\<close>

lemma step_blocked:
  assumes "step marshal srv s s'" and "orphaned s c" and "capacity \<le> length (chans s ! c)"
    and "j < length (tasks s)" and "tasks s ! j = Sending msg c"
  shows "chans s' ! c = chans s ! c \<and> j < length (tasks s') \<and> tasks s' ! j = Sending msg c"
  using assms(1)
proof (cases rule: step.cases)
  case (open_stream sid)
  with assms(2,4,5) show ?thesis by (simp add: orphaned_def nth_append)
next
  case (announce i st)
  with assms(4,5) show ?thesis by simp
next
  case (receive i st m rest)
  then have "msgChan st \<noteq> c"
    using orphaned_not_reading [OF assms(2), of i st] by simp
  with receive assms(4,5) show ?thesis by simp
next
  case (cancel i st)
  with assms(4,5) show ?thesis by simp
next
  case (post r w req c')
  with assms(4,5) show ?thesis by (simp add: nth_append)
next
  case (run j' req c')
  with assms(5) have "j' \<noteq> j" by auto
  with run assms(4,5) show ?thesis by simp
next
  case (send j' m c')
  with assms(3) have c: "c' \<noteq> c" by auto
  with send assms(5) have "j' \<noteq> j" by auto
  with send c assms(4,5) show ?thesis by simp
qed

lemma steps_blocked:
  assumes "(step marshal srv)\<^sup>*\<^sup>* s s'" and "orphaned s c" and "capacity \<le> length (chans s ! c)"
    and "j < length (tasks s)" and "tasks s ! j = Sending msg c"
  shows "chans s' ! c = chans s ! c \<and> j < length (tasks s') \<and> tasks s' ! j = Sending msg c"
  using assms
proof (induction rule: rtranclp_induct)
  case base
  then show ?case by simp
next
  case (step y z)
  then have y: "chans y ! c = chans s ! c" "j < length (tasks y)" "tasks y ! j = Sending msg c"
    by simp_all
  from step(1) step(4) have o: "orphaned y c"
    using steps_orphaned by blast
  from step(5) y(1) have full: "capacity \<le> length (chans y ! c)"
    by simp
  from step(2) o full y(2,3)
  have "chans z ! c = chans y ! c \<and> j < length (tasks z) \<and> tasks z ! j = Sending msg c"
    by (rule step_blocked)
  with y(1) show ?case by simp
qed

text \<open>The example states are reachable.\<close>

lemma example_post_accepted:
  "handleMessage [(example_sid, 0)] example_post =
     (\<lparr>Status = 202, Written = []\<rparr>, Some (initialize_request, 0))"
proof -
  have m: "Method_http example_post = ''POST''" and b: "Body example_post = Some initialize_body"
    by (simp_all add: example_post_def message_request_def)
  have q: "Get (Query (URL example_post)) ''sessionId'' = example_sid"
    using example_sessionId [of "''POST''" "Some initialize_body"]
    by (simp add: example_post_def sessionId_of_def)
  have ne: "example_sid \<noteq> []"
    by (simp add: example_sid_def)
  show ?thesis
    by (simp add: handleMessage_def m b q ne example_body)
qed

lemma replicate_snoc_nth: "(replicate k x @ [y]) ! k = y"
  by (simp add: nth_append)

lemma replicate_snoc_update: "(replicate k x @ [y])[k := z] = replicate k x @ [z]"
  by (simp add: list_update_append)

lemma example_run:
  "(case response (processRequest example_server initialize_request) of
      None \<Rightarrow> Finished
    | Some resp \<Rightarrow> Sending (example_marshal resp) 0) = Sending ''{}'' 0"
  by (simp add: processRequest_def initialize_request_def example_marshal_def)

lemma fill_one:
  assumes "k < capacity"
  shows "(step example_marshal example_server)\<^sup>*\<^sup>* (filled k) (filled (Suc k))"
proof -
  let ?s1 = "(filled k)\<lparr>tasks := replicate k Finished @ [Started initialize_request 0]\<rparr>"
  let ?s2 = "(filled k)\<lparr>tasks := replicate k Finished @ [Sending ''{}'' 0]\<rparr>"
  have "step example_marshal example_server (filled k) ?s1"
    using step.post [where s = "filled k" and r = example_post and req = initialize_request and c = 0]
      example_post_accepted
    by (simp add: filled_def)
  moreover have "step example_marshal example_server ?s1 ?s2"
    using step.run [where s = ?s1 and j = k and req = initialize_request and c = 0
        and marshal = example_marshal and srv = example_server]
    by (simp add: filled_def example_run replicate_snoc_nth replicate_snoc_update)
  moreover have "step example_marshal example_server ?s2 (filled (Suc k))"
    using step.send [where s = ?s2 and j = k and msg = "''{}''" and c = 0] assms
    by (simp add: filled_def replicate_append_same replicate_snoc_nth replicate_snoc_update)
  ultimately show ?thesis by simp
qed

lemma reachable_filled:
  assumes "k \<le> capacity"
  shows "reachable example_marshal example_server (filled k)"
  using assms
proof (induction k)
  case 0
  have "filled 0 = announced"
    by (simp add: filled_def announced_def)
  with reachable_announced show ?case by simp
next
  case (Suc k)
  then have "reachable example_marshal example_server (filled k)" and "k < capacity"
    by simp_all
  with fill_one [of k] show ?case
    unfolding reachable_def by simp
qed

lemma reachable_abandoned:
  assumes "k \<le> capacity"
  shows "reachable example_marshal example_server (abandoned k)"
proof -
  let ?s1 = "(filled k)\<lparr>tasks := replicate k Finished @ [Started initialize_request 0]\<rparr>"
  let ?s2 = "?s1\<lparr>sessions := [], streams := [example_stream Returned [endpoint_event example_sid]]\<rparr>"
  have "step example_marshal example_server (filled k) ?s1"
    using step.post [where s = "filled k" and r = example_post and req = initialize_request and c = 0]
      example_post_accepted
    by (simp add: filled_def)
  moreover have "step example_marshal example_server ?s1 ?s2"
    using step.cancel [where s = ?s1 and i = 0 and st = "example_stream Loop [endpoint_event example_sid]"]
    by (simp add: filled_def example_stream_def)
  moreover have "step example_marshal example_server ?s2 (abandoned k)"
    using step.run [where s = ?s2 and j = k and req = initialize_request and c = 0
        and marshal = example_marshal and srv = example_server]
    by (simp add: filled_def abandoned_def example_run replicate_snoc_nth replicate_snoc_update)
  ultimately have "(step example_marshal example_server)\<^sup>*\<^sup>* (filled k) (abandoned k)"
    by simp
  with reachable_filled [OF assms] show ?thesis
    unfolding reachable_def by simp
qed

lemma abandoned_orphaned: "orphaned (abandoned k) 0"
  by (simp add: orphaned_def abandoned_def example_stream_def)

lemma abandoned_task:
  "k < length (tasks (abandoned k))" "tasks (abandoned k) ! k = Sending ''{}'' 0"
  by (simp_all add: abandoned_def nth_append)

text \<open>
  C2, as stated, fails when the queue is full. The state \<open>abandoned 10\<close> is reachable: ten
  responses wait in the buffer, the session is no longer in the directory, and the task of
  an eleventh request, accepted while the session was live, is at its send. No run of the
  system from there ever finishes that task: the send blocks it for good.
\<close>

theorem full_queue_blocks_forever:
  "reachable example_marshal example_server (abandoned 10) \<and>
   map_of (sessions (abandoned 10)) example_sid = None \<and>
   tasks (abandoned 10) ! 10 = Sending ''{}'' 0 \<and>
   length (chans (abandoned 10) ! 0) = capacity \<and>
   \<not> (\<exists>s'. (step example_marshal example_server)\<^sup>*\<^sup>* (abandoned 10) s' \<and> tasks s' ! 10 = Finished)"
proof -
  have r: "reachable example_marshal example_server (abandoned 10)"
    by (rule reachable_abandoned) (simp add: capacity_def)
  have full: "capacity \<le> length (chans (abandoned 10) ! 0)"
    by (simp add: abandoned_def capacity_def)
  have "tasks s' ! 10 = Sending ''{}'' 0"
    if "(step example_marshal example_server)\<^sup>*\<^sup>* (abandoned 10) s'" for s'
    using steps_blocked [OF that abandoned_orphaned full abandoned_task] by simp
  then have "\<not> (\<exists>s'. (step example_marshal example_server)\<^sup>*\<^sup>* (abandoned 10) s' \<and> tasks s' ! 10 = Finished)"
    by auto
  with r show ?thesis
    by (simp add: abandoned_def capacity_def nth_append)
qed

text \<open>
  C2, amended: for every dispatch task that is at its send after the stream of its session
  has returned (the session is removed from the directory), the send raises nothing and
  answers no caller. While the channel holds fewer than 10 messages the send is a step
  that appends the response to the channel and ends the task; once the channel holds 10
  messages the task stays at its send in every later state. In both cases the channel
  stays orphaned and nothing is ever taken out of it, so the response reaches no stream.
\<close>

theorem send_to_orphaned_channel:
  assumes "j < length (tasks s)" and "tasks s ! j = Sending msg c" and "orphaned s c"
  shows "(length (chans s ! c) < capacity \<longrightarrow>
            step marshal srv s (s\<lparr>chans := (chans s)[c := chans s ! c @ [msg]],
                                  tasks := (tasks s)[j := Finished]\<rparr>)) \<and>
         (capacity \<le> length (chans s ! c) \<longrightarrow>
            (\<forall>s'. (step marshal srv)\<^sup>*\<^sup>* s s' \<longrightarrow> j < length (tasks s') \<and> tasks s' ! j = Sending msg c)) \<and>
         (\<forall>s'. (step marshal srv)\<^sup>*\<^sup>* s s' \<longrightarrow> orphaned s' c \<and> prefix (chans s ! c) (chans s' ! c))"
proof (intro conjI impI allI)
  assume "length (chans s ! c) < capacity"
  moreover from assms(3) have "c < length (chans s)"
    by (simp add: orphaned_def)
  ultimately show "step marshal srv s (s\<lparr>chans := (chans s)[c := chans s ! c @ [msg]],
                                         tasks := (tasks s)[j := Finished]\<rparr>)"
    using assms(1,2) by (simp add: step.send)
next
  fix s'
  assume "capacity \<le> length (chans s ! c)" and "(step marshal srv)\<^sup>*\<^sup>* s s'"
  then have "chans s' ! c = chans s ! c \<and> j < length (tasks s') \<and> tasks s' ! j = Sending msg c"
    using assms by (simp add: steps_blocked)
  then show "j < length (tasks s')" and "tasks s' ! j = Sending msg c"
    by simp_all
next
  fix s'
  assume "(step marshal srv)\<^sup>*\<^sup>* s s'"
  then have "orphaned s' c \<and> prefix (chans s ! c) (chans s' ! c)"
    using assms(3) by (rule steps_orphaned)
  then show "orphaned s' c" and "prefix (chans s ! c) (chans s' ! c)"
    by simp_all
qed

theorem send_to_orphaned_channel_witness:
  "reachable example_marshal example_server (abandoned 0) \<and>
   tasks (abandoned 0) ! 0 = Sending ''{}'' 0 \<and>
   orphaned (abandoned 0) 0 \<and>
   step example_marshal example_server (abandoned 0)
     ((abandoned 0)\<lparr>chans := [[''{}'']], tasks := [Finished]\<rparr>) \<and>
   orphaned (abandoned 10) 0 \<and>
   \<not> (\<exists>s'. (step example_marshal example_server)\<^sup>*\<^sup>* (abandoned 10) s' \<and>
          tasks s' ! 10 \<noteq> Sending ''{}'' 0)"
proof -
  have r: "reachable example_marshal example_server (abandoned 0)"
    by (rule reachable_abandoned) simp
  have room: "length (chans (abandoned 0) ! 0) < capacity"
    by (simp add: abandoned_def capacity_def)
  have full: "capacity \<le> length (chans (abandoned 10) ! 0)"
    by (simp add: abandoned_def capacity_def)
  have a: "step example_marshal example_server (abandoned 0)
     ((abandoned 0)\<lparr>chans := [[''{}'']], tasks := [Finished]\<rparr>)"
    using send_to_orphaned_channel [OF abandoned_task abandoned_orphaned, of 0 example_marshal example_server] room
    by (simp add: abandoned_def)
  have b: "\<not> (\<exists>s'. (step example_marshal example_server)\<^sup>*\<^sup>* (abandoned 10) s' \<and>
          tasks s' ! 10 \<noteq> Sending ''{}'' 0)"
    using send_to_orphaned_channel [OF abandoned_task abandoned_orphaned, of 10 example_marshal example_server] full
    by blast
  from r a b abandoned_task [of 0] abandoned_orphaned show ?thesis
    by simp
qed

section \<open>ParseURL\<close>

lemma Contains_sublist: "Contains s substr \<longleftrightarrow> sublist substr s"
  unfolding Contains_def
proof (induction s)
  case Nil
  show ?case by simp
next
  case (Cons c cs)
  then show ?case
    by (cases substr) (auto simp: sublist_Cons_right)
qed

lemma Index_None_before: "Index s sep = None \<Longrightarrow> before_marker s sep = s"
  by (induction s) (auto split: if_splits)

lemma Index_Some_before: "Index s sep = Some m \<Longrightarrow> take m s = before_marker s sep"
  by (induction s arbitrary: m) (auto split: if_splits)

lemma Index_Some_decomp:
  "Index s sep = Some m \<Longrightarrow> s = take m s @ sep @ drop (m + length sep) s"
proof (induction s arbitrary: m)
  case Nil
  then show ?case by (simp split: if_splits)
next
  case (Cons c cs)
  show ?case
  proof (cases "prefix sep (c # cs)")
    case True
    with Cons.prems have "m = 0" by simp
    with True show ?thesis by (auto simp: prefix_def)
  next
    case False
    with Cons.prems obtain m' where m: "m = Suc m'" and i: "Index cs sep = Some m'"
      by auto
    from Cons.IH [OF i] show ?thesis
      unfolding m by simp
  qed
qed

lemma Index_single_None: "Index s [c] = None \<Longrightarrow> c \<notin> set s"
  by (induction s) (auto split: if_splits)

lemma Split_not_Nil: "sep \<noteq> [] \<Longrightarrow> Split s sep \<noteq> []"
  by (subst Split.simps) (simp split: option.splits)

lemma hd_Split: "sep \<noteq> [] \<Longrightarrow> hd (Split s sep) = before_marker s sep"
  by (subst Split.simps) (simp add: Index_None_before Index_Some_before split: option.splits)

lemma takeWhile_stop: "\<not> P y \<Longrightarrow> takeWhile P (xs @ y # ys) = takeWhile P xs"
  by (induction xs) simp_all

lemma last_segment_after_slash: "last_segment (a @ CHR ''/'' # b) = last_segment b"
  by (simp add: last_segment_def takeWhile_stop)

lemma last_segment_no_slash:
  assumes "CHR ''/'' \<notin> set s"
  shows "last_segment s = s"
proof -
  from assms have "\<forall>c \<in> set (rev s). c \<noteq> CHR ''/''"
    by auto
  then have "takeWhile (\<lambda>c. c \<noteq> CHR ''/'') (rev s) = rev s"
    by (simp only: takeWhile_eq_all_conv)
  then show ?thesis
    unfolding last_segment_def by (simp only: rev_rev_ident)
qed

lemma last_Split: "last (Split s ''/'') = last_segment s"
proof (induction s "''/''" rule: Split.induct)
  case (1 s)
  show ?case
  proof (cases "Index s ''/''")
    case None
    then have "CHR ''/'' \<notin> set s"
      by (rule Index_single_None)
    with None show ?thesis
      by (subst Split.simps) (simp add: last_segment_no_slash)
  next
    case (Some m)
    then have "s = take m s @ ''/'' @ drop (m + length ''/'') s"
      by (rule Index_Some_decomp)
    then have "last_segment s = last_segment (drop (m + length ''/'') s)"
      using last_segment_after_slash [of "take m s" "drop (m + length ''/'') s"] by simp
    moreover have "last (Split (drop (m + length ''/'') s) ''/'') = last_segment (drop (m + length ''/'') s)"
      using "1" Some by simp
    ultimately show ?thesis
      using Some Split_not_Nil [of "''/''" "drop (m + length ''/'') s"]
      by (subst Split.simps) simp
  qed
qed

lemma Atoi_empty: "Atoi [] = Inl NumError"
  by (simp add: Atoi_def)

lemma parse_block_eq:
  assumes "marker \<noteq> []"
  shows "parse_block u marker param ty =
           (if sublist marker (Path u)
            then map_option (\<lambda>n. \<lparr>Type_res = ty, Project = project_before (Path u) marker, ID_res = n\<rparr>)
                   (int_param u param)
            else None)"
proof -
  have parts: "0 < length (Split (Path u) marker)"
    using Split_not_Nil [OF assms] by simp
  have pathParts: "0 < length (Split (TrimRight (hd (Split (Path u) marker)) ''/'') ''/'')"
    using Split_not_Nil [of "''/''"] by simp
  show ?thesis
    unfolding parse_block_def Let_def Contains_sublist project_before_def int_param_def
    using parts pathParts
    by (auto simp: hd_Split [OF assms] last_Split Atoi_empty split: sum.splits)
qed

text \<open>
  What \<open>ParseURL\<close> computes: the error of \<open>url.Parse\<close>, or a build when the path contains
  \<open>/_build\<close> and the first \<open>buildId\<close> value is an integer, or else a release when the
  path contains \<open>/_release\<close> and the first \<open>releaseId\<close> value is an integer, or else an
  error. The project is the last segment before the marker, taken from the decoded path
  and put through \<open>QueryUnescape\<close> once more, empty when that fails.
\<close>

lemma ParseURL_result:
  "ParseURL parse rawURL =
     (case parse rawURL of
        Inl err \<Rightarrow> Inl err
      | Inr u \<Rightarrow>
          (case (if sublist ''/_build'' (Path u) then int_param u ''buildId'' else None) of
             Some n \<Rightarrow>
               Inr \<lparr>Type_res = ResourceBuild, Project = project_before (Path u) ''/_build'', ID_res = n\<rparr>
           | None \<Rightarrow>
               (case (if sublist ''/_release'' (Path u) then int_param u ''releaseId'' else None) of
                  Some n \<Rightarrow>
                    Inr \<lparr>Type_res = ResourceRelease, Project = project_before (Path u) ''/_release'', ID_res = n\<rparr>
                | None \<Rightarrow> Inl (Errorf ''could not parse build or release info from URL''))))"
  unfolding ParseURL_def
  by (simp add: parse_block_eq split: sum.splits option.splits)

lemma ParseURL_example:
  "ParseURL example_parse example_url =
     Inr \<lparr>Type_res = ResourceBuild, Project = ''My Project'', ID_res = 42\<rparr>"
proof -
  let ?u = "\<lparr>Path = ''/tfs/Coll/My Project/_build/results'', RawQuery = ''buildId=42&view=logs''\<rparr>"
  have a: "example_parse example_url = Inr ?u"
    by (simp add: example_parse_def)
  have b: "sublist ''/_build'' (Path ?u)"
    using Contains_sublist [of "Path ?u" "''/_build''"] by code_simp
  have c: "int_param ?u ''buildId'' = Some 42"
    by code_simp
  have d: "project_before (Path ?u) ''/_build'' = ''My Project''"
    by code_simp
  show ?thesis
    using ParseURL_result [of example_parse example_url]
    by (simp only: a b c d sum.case if_True option.case)
qed

text \<open>
  C10: the Project is the URL-unescaped last path segment before the marker. The code
  does not deliver that: it takes the segment from \<open>u.Path\<close>, which \<open>url.Parse\<close> has
  already unescaped, unescapes it a second time and drops the error. For the project
  \<open>50%off\<close>, written \<open>50%25off\<close> in the URL, the second unescape fails and the Project
  comes out empty; for the project \<open>A+B\<close> the second unescape turns the plus into a
  space. Both calls succeed with the right type and ID.
\<close>

theorem project_unescaped_twice:
  "example_parse percent_url = Inr \<lparr>Path = ''/tfs/Coll/50%off/_build/results'', RawQuery = ''buildId=7''\<rparr> \<and>
   ParseURL example_parse percent_url = Inr \<lparr>Type_res = ResourceBuild, Project = [], ID_res = 7\<rparr> \<and>
   example_parse plus_url = Inr \<lparr>Path = ''/tfs/Coll/A+B/_build/results'', RawQuery = ''buildId=7''\<rparr> \<and>
   ParseURL example_parse plus_url = Inr \<lparr>Type_res = ResourceBuild, Project = ''A B'', ID_res = 7\<rparr>"
proof -
  have a: "example_parse percent_url =
             Inr \<lparr>Path = ''/tfs/Coll/50%off/_build/results'', RawQuery = ''buildId=7''\<rparr>"
    unfolding example_parse_def example_url_def percent_url_def by simp
  have b: "parse_block \<lparr>Path = ''/tfs/Coll/50%off/_build/results'', RawQuery = ''buildId=7''\<rparr>
             ''/_build'' ''buildId'' ResourceBuild =
           Some \<lparr>Type_res = ResourceBuild, Project = [], ID_res = 7\<rparr>"
    by code_simp
  have c: "example_parse plus_url =
             Inr \<lparr>Path = ''/tfs/Coll/A+B/_build/results'', RawQuery = ''buildId=7''\<rparr>"
    unfolding example_parse_def example_url_def percent_url_def plus_url_def by simp
  have d: "parse_block \<lparr>Path = ''/tfs/Coll/A+B/_build/results'', RawQuery = ''buildId=7''\<rparr>
             ''/_build'' ''buildId'' ResourceBuild =
           Some \<lparr>Type_res = ResourceBuild, Project = ''A B'', ID_res = 7\<rparr>"
    by code_simp
  from a b c d show ?thesis
    by (simp add: ParseURL_def)
qed

section \<open>Notifications\<close>

text \<open>
  The goroutine of a notifications/initialized request goes from its start to its end and
  is never at a send.
\<close>

lemma step_notification:
  assumes "step marshal srv st st'" and "Method req = ''notifications/initialized''"
    and "j < length (tasks st)" and "tasks st ! j = Started req c \<or> tasks st ! j = Finished"
  shows "j < length (tasks st') \<and> (tasks st' ! j = Started req c \<or> tasks st' ! j = Finished)"
  using assms(1)
proof (cases rule: step.cases)
  case (open_stream sid)
  with assms(3,4) show ?thesis by simp
next
  case (announce i x)
  with assms(3,4) show ?thesis by simp
next
  case (receive i x msg rest)
  with assms(3,4) show ?thesis by simp
next
  case (cancel i x)
  with assms(3,4) show ?thesis by simp
next
  case (post r w req' c')
  with assms(3,4) show ?thesis by (simp add: nth_append)
next
  case (run j' req' c')
  show ?thesis
  proof (cases "j' = j")
    case True
    with run assms(4) have "req' = req" by auto
    with assms(2) have "response (processRequest srv req') = None"
      by (simp add: processRequest_def)
    with run True assms(3) show ?thesis by simp
  next
    case False
    with run assms(3,4) show ?thesis by simp
  qed
next
  case (send j' msg c')
  with assms(4) have "j' \<noteq> j" by auto
  with send assms(3,4) show ?thesis by simp
qed

lemma steps_notification:
  assumes "(step marshal srv)\<^sup>*\<^sup>* st st'" and "Method req = ''notifications/initialized''"
    and "j < length (tasks st)" and "tasks st ! j = Started req c"
  shows "j < length (tasks st') \<and> (tasks st' ! j = Started req c \<or> tasks st' ! j = Finished)"
  using assms
proof (induction rule: rtranclp_induct)
  case base
  then show ?case by simp
next
  case (step y z)
  then have y: "j < length (tasks y)" "tasks y ! j = Started req c \<or> tasks y ! j = Finished"
    by simp_all
  from step(2) assms(2) y show ?case
    by (rule step_notification)
qed

text \<open>
  C9: for a request with method notifications/initialized the dispatcher returns before
  it marshals anything: it invokes no handler and has no response to send, and the
  goroutine that runs it never reaches a send in any later state, so nothing is put on
  the session's channel for it.
\<close>

theorem notification_no_response:
  assumes "Method req = ''notifications/initialized''"
  shows "processRequest srv req = \<lparr>invoked = [], response = None\<rparr> \<and>
         (\<forall>st st'. j < length (tasks st) \<and> tasks st ! j = Started req c \<and>
             (step marshal srv)\<^sup>*\<^sup>* st st' \<longrightarrow>
               tasks st' ! j = Started req c \<or> tasks st' ! j = Finished)"
proof -
  from assms have "processRequest srv req = \<lparr>invoked = [], response = None\<rparr>"
    by (simp add: processRequest_def)
  moreover have "tasks st' ! j = Started req c \<or> tasks st' ! j = Finished"
    if "j < length (tasks st)" and "tasks st ! j = Started req c"
      and "(step marshal srv)\<^sup>*\<^sup>* st st'" for st st'
    using steps_notification [OF that(3) assms that(1,2)] by simp
  ultimately show ?thesis by blast
qed

theorem notification_no_response_witness:
  "Method \<lparr>JSONRPC = ''2.0'', Method = ''notifications/initialized'', Params = None, ID = None\<rparr> =
     ''notifications/initialized'' \<and>
   processRequest example_server
     \<lparr>JSONRPC = ''2.0'', Method = ''notifications/initialized'', Params = None, ID = None\<rparr> =
   \<lparr>invoked = [], response = None\<rparr>"
  using notification_no_response
    [of "\<lparr>JSONRPC = ''2.0'', Method = ''notifications/initialized'', Params = None, ID = None\<rparr>"
      example_server]
  by simp

end
